theory Spec2Isabelle
  imports Main "HOL-Library.AList" "HOL-Library.Sublist"
begin

section \<open>Feedback engine: \<open>calculateFeedback\<close>\<close>

text \<open>
  Codes are JavaScript arrays of integers. \<open>calculateFeedback\<close> copies both arrays and
  runs two \<open>forEach\<close> loops over the copy of the secret. The copies are mutated in the
  loops, so each loop is a fold whose state carries the counter and the copies.

  \<open>indexOf\<close> is \<open>Array.prototype.indexOf\<close>: the lowest index holding the value, and
  \<open>-1\<close> when there is none.
\<close>

fun indexOf_loop :: "int list \<Rightarrow> int \<Rightarrow> nat \<Rightarrow> int" where
  "indexOf_loop [] v k = - 1"
| "indexOf_loop (x # xs) v k = (if x = v then int k else indexOf_loop xs v (Suc k))"

definition indexOf :: "int list \<Rightarrow> int \<Rightarrow> int" where
  "indexOf xs v = indexOf_loop xs v 0"

text \<open>
  One round of the first loop, at index \<open>i\<close>. The read \<open>guessCopy[i]\<close> past the end of
  the guess is \<open>undefined\<close>, which is not strictly equal to any integer, so the test
  fails there. The index runs over the secret, whose length the loop never changes.
\<close>

definition black_step :: "nat \<Rightarrow> nat \<times> int list \<times> int list \<Rightarrow> nat \<times> int list \<times> int list" where
  "black_step i st =
     (case st of (black, secretCopy, guessCopy) \<Rightarrow>
        if i < length guessCopy \<and> secretCopy ! i = guessCopy ! i
        then (black + 1, secretCopy[i := - 1], guessCopy[i := - 1])
        else (black, secretCopy, guessCopy))"

definition black_pass :: "int list \<Rightarrow> int list \<Rightarrow> nat \<times> int list \<times> int list" where
  "black_pass secret guess = fold black_step [0..<length secret] (0, secret, guess)"

text \<open>One round of the second loop, for the element \<open>val\<close> of the marked secret copy.\<close>

definition white_step :: "int \<Rightarrow> nat \<times> int list \<Rightarrow> nat \<times> int list" where
  "white_step val st =
     (case st of (white, guessCopy) \<Rightarrow>
        if val \<noteq> - 1
        then (let idx = indexOf guessCopy val
              in if idx \<noteq> - 1 then (white + 1, guessCopy[nat idx := - 1])
                 else (white, guessCopy))
        else (white, guessCopy))"

definition white_pass :: "int list \<Rightarrow> int list \<Rightarrow> nat \<times> int list" where
  "white_pass secretCopy guessCopy = fold white_step secretCopy (0, guessCopy)"

definition calculateFeedback :: "int list \<Rightarrow> int list \<Rightarrow> string list" where
  "calculateFeedback secret guess =
     (case black_pass secret guess of (black, secretCopy, guessCopy) \<Rightarrow>
        (case white_pass secretCopy guessCopy of (white, _) \<Rightarrow>
           replicate black ''black'' @ replicate white ''white''))"

text \<open>The two counts read off a feedback array.\<close>

definition exactCount :: "string list \<Rightarrow> nat" where
  "exactCount fb = length (filter (\<lambda>p. p = ''black'') fb)"

definition colorCount :: "string list \<Rightarrow> nat" where
  "colorCount fb = length (filter (\<lambda>p. p = ''white'') fb)"

text \<open>
  The scoring policy in the words of the specification, for comparison with the code:
  the first pass counts the positions where secret and guess agree and removes them from
  both; the second pass takes each remaining secret value in position order, looks for
  its first occurrence among the remaining guess values and, when there is one, counts a
  colour peg and removes that occurrence. Consumed positions are removed, so no value of
  the palette is used as a mark.
\<close>

definition spec_exact :: "int list \<Rightarrow> int list \<Rightarrow> nat" where
  "spec_exact secret guess = length (filter (\<lambda>(s, g). s = g) (zip secret guess))"

fun spec_color_pass :: "int list \<Rightarrow> int list \<Rightarrow> nat" where
  "spec_color_pass [] remaining = 0"
| "spec_color_pass (v # vs) remaining =
     (if v \<in> set remaining then Suc (spec_color_pass vs (remove1 v remaining))
      else spec_color_pass vs remaining)"

definition spec_color :: "int list \<Rightarrow> int list \<Rightarrow> nat" where
  "spec_color secret guess =
     (let unmatched = filter (\<lambda>(s, g). s \<noteq> g) (zip secret guess)
      in spec_color_pass (map fst unmatched) (map snd unmatched))"

section \<open>The socket controller\<close>

subsection \<open>Data\<close>

text \<open>
  \<open>onlineUsers\<close> and \<open>activeGames\<close> are JavaScript \<open>Map\<close>s, which keep insertion order:
  association lists, written with \<open>AList.update\<close> (replace in place or append) and
  \<open>AList.delete\<close>. A game is an object that the handlers mutate in place and that the
  map only refers to, so the games live in a store (\<open>heap\<close>, addressed by position;
  allocation appends) and \<open>activeGames\<close> maps a game id to an address. A secret slot is
  \<open>null\<close> (\<open>None\<close>) or an array.
\<close>

record user =
  username :: "string option"
  socketId :: string
  status :: string

record guessData =
  guess :: "int list"
  feedback :: "string list"

record game =
  player1 :: string
  player2 :: string
  secret1 :: "int list option"
  secret2 :: "int list option"
  guesses1 :: "guessData list"
  guesses2 :: "guessData list"
  bothCodesSet :: bool

record state =
  onlineUsers :: "(string \<times> user) list"
  activeGames :: "(string \<times> nat) list"
  heap :: "game list"

definition init_state :: state where
  "init_state = \<lparr>onlineUsers = [], activeGames = [], heap = []\<rparr>"

text \<open>
  Outbound notifications. \<open>socket.emit\<close> and \<open>io.to(id).emit\<close> both address the
  connection with that id (\<open>ToSocket\<close>); \<open>io.emit\<close> addresses every connection.
\<close>

datatype dest = ToSocket string | ToAll

datatype msg =
    users_list_update "user list"
  | challenge_received "string option" string
  | challenge_accepted "string option" string string string
  | both_codes_set string
  | opponent_code_set string
  | guess_error string string
  | guess_feedback string guessData bool bool
  | opponent_guess string guessData
  | opponent_game_status string bool bool
  | opponent_disconnected string

type_synonym outbox = "(dest \<times> msg) list"

text \<open>The payload of \<open>register_user\<close>: a string, an object with an optional
  \<open>username\<close>, or nothing.\<close>

datatype userData = UserString string | UserObject "string option" | UserNullish

datatype js_error = TypeError

text \<open>The two texts carried by \<open>guess_error\<close>; the second has the letter a with grave
  accent (code unit \<open>0xE0\<close>) in its second word.\<close>

definition err_secrets_not_ready :: string where
  "err_secrets_not_ready = ''I codici segreti non sono ancora stati entrambi impostati''"

definition err_attempts_exhausted :: string where
  "err_attempts_exhausted = ''Hai gi'' @ [CHR 0xE0] @ '' esaurito tutti i tentativi''"

subsection \<open>Helpers\<close>

text \<open>\<open>Map.prototype.has\<close> and \<open>activeGames.get\<close>, which yields the game object (its
  address and its current content) or \<open>undefined\<close>. A JavaScript reference always
  points to an object; the states the handlers build keep every address of
  \<open>activeGames\<close> inside the store (\<open>reachable_refs_valid\<close> below), and for any other
  state an address outside the store counts as no game.\<close>

definition has :: "(string \<times> 'v) list \<Rightarrow> string \<Rightarrow> bool" where
  "has m k = (map_of m k \<noteq> None)"

definition deref :: "state \<Rightarrow> nat \<Rightarrow> game option" where
  "deref s r = (if r < length (heap s) then Some (heap s ! r) else None)"

definition activeGames_get :: "state \<Rightarrow> string \<Rightarrow> (nat \<times> game) option" where
  "activeGames_get s gameId =
     (case map_of (activeGames s) gameId of
        None \<Rightarrow> None
      | Some r \<Rightarrow> (case deref s r of None \<Rightarrow> None | Some game \<Rightarrow> Some (r, game)))"

definition store :: "state \<Rightarrow> nat \<Rightarrow> game \<Rightarrow> state" where
  "store s r game = s\<lparr>heap := (heap s)[r := game]\<rparr>"

text \<open>The decimal text of \<open>Date.now()\<close> inside the template string of the game id.\<close>

definition digit_char :: "nat \<Rightarrow> char" where
  "digit_char d = ''0123456789'' ! d"

function show_nat :: "nat \<Rightarrow> string" where
  "show_nat n = (if n < 10 then [digit_char n] else show_nat (n div 10) @ [digit_char (n mod 10)])"
  by pat_completeness auto
termination
  by (relation "measure id") auto

declare show_nat.simps [simp del]

definition make_gameId :: "string \<Rightarrow> string \<Rightarrow> nat \<Rightarrow> string" where
  "make_gameId challengerId sid now = challengerId @ ''_'' @ sid @ ''_'' @ show_nat now"

definition new_game :: "string \<Rightarrow> string \<Rightarrow> game" where
  "new_game challengerId sid =
     \<lparr>player1 = challengerId, player2 = sid, secret1 = None, secret2 = None,
      guesses1 = [], guesses2 = [], bothCodesSet = False\<rparr>"

subsection \<open>Handlers\<close>

text \<open>
  Every handler takes the id of the connection it is registered on (\<open>socket.id\<close>), its
  payload and the state, and returns the new state with the notifications it emitted,
  in order. The \<open>console.log\<close> diagnostics are not part of the state or of the outbox.
\<close>

definition register_user :: "string \<Rightarrow> userData \<Rightarrow> state \<Rightarrow> state \<times> outbox" where
  "register_user sid ud s =
     (let name = (case ud of UserString n \<Rightarrow> Some n | UserObject n \<Rightarrow> n | UserNullish \<Rightarrow> None);
          u = \<lparr>username = name, socketId = sid, status = ''online''\<rparr>;
          s' = s\<lparr>onlineUsers := AList.update sid u (onlineUsers s)\<rparr>
      in (s', [(ToAll, users_list_update (map snd (onlineUsers s')))]))"

definition get_users :: "string \<Rightarrow> state \<Rightarrow> state \<times> outbox" where
  "get_users sid s = (s, [(ToSocket sid, users_list_update (map snd (onlineUsers s)))])"

definition send_challenge :: "string \<Rightarrow> string \<Rightarrow> state \<Rightarrow> state \<times> outbox" where
  "send_challenge sid targetSocketId s =
     (case map_of (onlineUsers s) sid of
        None \<Rightarrow> (s, [])
      | Some challenger \<Rightarrow>
          if has (onlineUsers s) targetSocketId
          then (s, [(ToSocket targetSocketId, challenge_received (username challenger) sid)])
          else (s, []))"

text \<open>\<open>now\<close> is the value \<open>Date.now()\<close> returns when the handler runs. The new game
  object is allocated at the end of the store.\<close>

definition accept_challenge :: "string \<Rightarrow> string \<Rightarrow> nat \<Rightarrow> state \<Rightarrow> state \<times> outbox" where
  "accept_challenge sid challengerId now s =
     (case map_of (onlineUsers s) sid of
        None \<Rightarrow> (s, [])
      | Some accepter \<Rightarrow>
          (case map_of (onlineUsers s) challengerId of
             None \<Rightarrow> (s, [])
           | Some challenger \<Rightarrow>
               (let gameId = make_gameId challengerId sid now;
                    r = length (heap s)
                in (s\<lparr>activeGames := AList.update gameId r (activeGames s),
                      heap := heap s @ [new_game challengerId sid]\<rparr>,
                    [(ToSocket challengerId,
                        challenge_accepted (username accepter) sid gameId ''player1''),
                     (ToSocket sid,
                        challenge_accepted (username challenger) challengerId gameId ''player2'')]))))"

definition set_secret_code :: "string \<Rightarrow> string \<Rightarrow> int list option \<Rightarrow> state \<Rightarrow> state \<times> outbox" where
  "set_secret_code sid gameId secretCode s =
     (case activeGames_get s gameId of
        None \<Rightarrow> (s, [])
      | Some (r, game) \<Rightarrow>
          (let isPlayer1 = (player1 game = sid);
               isPlayer2 = (player2 game = sid)
           in if \<not> isPlayer1 \<and> \<not> isPlayer2 then (s, [])
              else
                (let game' = (if isPlayer1 then game\<lparr>secret1 := secretCode\<rparr>
                              else if isPlayer2 then game\<lparr>secret2 := secretCode\<rparr>
                              else game)
                 in if secret1 game' \<noteq> None \<and> secret2 game' \<noteq> None
                    then (store s r (game'\<lparr>bothCodesSet := True\<rparr>),
                          [(ToSocket (player1 game'), both_codes_set gameId),
                           (ToSocket (player2 game'), both_codes_set gameId)])
                    else
                      (let opponentSocketId = (if isPlayer1 then player2 game' else player1 game')
                       in (store s r game',
                           [(ToSocket opponentSocketId, opponent_code_set gameId)])))))"

text \<open>
  \<open>guess.every((val, idx) => val === targetSecret[idx])\<close>: the index runs over the guess
  only; a read past the end of the secret is \<open>undefined\<close>, equal to no integer.
\<close>

definition every_matches :: "int list \<Rightarrow> int list \<Rightarrow> bool" where
  "every_matches gs targetSecret =
     list_all (\<lambda>(idx, val). idx < length targetSecret \<and> val = targetSecret ! idx) (enumerate 0 gs)"

text \<open>
  \<open>submit_guess\<close> is the one handler that can throw on a well-formed payload: when the
  target secret is \<open>null\<close>, \<open>[...secret]\<close> in \<open>calculateFeedback\<close> raises a \<open>TypeError\<close>
  before anything is appended or emitted.
\<close>

definition submit_guess :: "string \<Rightarrow> string \<Rightarrow> int list \<Rightarrow> state \<Rightarrow> js_error + state \<times> outbox" where
  "submit_guess sid gameId gs s =
     (case activeGames_get s gameId of
        None \<Rightarrow> Inr (s, [])
      | Some (r, game) \<Rightarrow>
          if \<not> bothCodesSet game
          then Inr (s, [(ToSocket sid, guess_error gameId err_secrets_not_ready)])
          else
            (let isPlayer1 = (player1 game = sid);
                 isPlayer2 = (player2 game = sid)
             in if \<not> isPlayer1 \<and> \<not> isPlayer2 then Inr (s, [])
                else
                  (let targetSecret = (if isPlayer1 then secret2 game else secret1 game);
                       guessesArray = (if isPlayer1 then guesses1 game else guesses2 game)
                   in if length guessesArray \<ge> 10
                      then Inr (s, [(ToSocket sid, guess_error gameId err_attempts_exhausted)])
                      else
                        (case targetSecret of
                           None \<Rightarrow> Inl TypeError
                         | Some secret \<Rightarrow>
                             (let guessData = \<lparr>guess = gs, feedback = calculateFeedback secret gs\<rparr>;
                                  guessesArray' = guessesArray @ [guessData];
                                  game' = (if isPlayer1 then game\<lparr>guesses1 := guessesArray'\<rparr>
                                           else game\<lparr>guesses2 := guessesArray'\<rparr>);
                                  isWin = every_matches gs secret;
                                  gameOver = (length guessesArray' \<ge> 10 \<or> isWin);
                                  opponentSocketId = (if isPlayer1 then player2 game else player1 game)
                              in Inr (store s r game',
                                      [(ToSocket sid, guess_feedback gameId guessData isWin gameOver),
                                       (ToSocket opponentSocketId, opponent_guess gameId guessData)]
                                      @ (if gameOver
                                         then [(ToSocket opponentSocketId,
                                                  opponent_game_status gameId isWin
                                                    (\<not> isWin \<and> length guessesArray' \<ge> 10))]
                                         else [])))))))"

text \<open>
  \<open>disconnect\<close> removes the presence entry, then walks the entries of \<open>activeGames\<close>
  and deletes every game the connection takes part in, notifying the opponent when the
  opponent id is non-empty and still online. The loop deletes only the entry it is
  visiting, so it visits exactly the entries present when it starts.
\<close>

definition disconnect_step :: "string \<Rightarrow> state \<Rightarrow> string \<times> nat \<Rightarrow> (string \<times> nat) list \<times> outbox
    \<Rightarrow> (string \<times> nat) list \<times> outbox" where
  "disconnect_step sid s entry acc =
     (case entry of (gameId, r) \<Rightarrow>
        (case acc of (games, out) \<Rightarrow>
           (case deref s r of
              None \<Rightarrow> (games, out)
            | Some game \<Rightarrow>
                if player1 game = sid \<or> player2 game = sid
                then (let opponentSocketId = (if player1 game = sid then player2 game else player1 game)
                      in (AList.delete gameId games,
                          out @ (if opponentSocketId \<noteq> [] \<and> has (onlineUsers s) opponentSocketId
                                 then [(ToSocket opponentSocketId, opponent_disconnected gameId)]
                                 else [])))
                else (games, out))))"

definition disconnect :: "string \<Rightarrow> state \<Rightarrow> state \<times> outbox" where
  "disconnect sid s =
     (let (s1, out1) =
            (if has (onlineUsers s) sid
             then (let s' = s\<lparr>onlineUsers := AList.delete sid (onlineUsers s)\<rparr>
                   in (s', [(ToAll, users_list_update (map snd (onlineUsers s')))]))
             else (s, []));
          (games, out2) = fold (disconnect_step sid s1) (activeGames s1) (activeGames s1, out1)
      in (s1\<lparr>activeGames := games\<rparr>, out2))"

subsection \<open>Events and runs\<close>

datatype event =
    On_register_user userData
  | On_get_users
  | On_send_challenge string
  | On_accept_challenge string nat
  | On_set_secret_code string "int list option"
  | On_submit_guess string "int list"
  | On_disconnect

fun handle :: "string \<Rightarrow> event \<Rightarrow> state \<Rightarrow> js_error + state \<times> outbox" where
  "handle sid (On_register_user ud) s = Inr (register_user sid ud s)"
| "handle sid On_get_users s = Inr (get_users sid s)"
| "handle sid (On_send_challenge t) s = Inr (send_challenge sid t s)"
| "handle sid (On_accept_challenge c now) s = Inr (accept_challenge sid c now s)"
| "handle sid (On_set_secret_code gameId code) s = Inr (set_secret_code sid gameId code s)"
| "handle sid (On_submit_guess gameId gs) s = submit_guess sid gameId gs s"
| "handle sid On_disconnect s = Inr (disconnect sid s)"

text \<open>A run handles a list of (connection, event) pairs in order and stops at the first
  exception; it returns the final state and all notifications.\<close>

fun run :: "(string \<times> event) list \<Rightarrow> state \<Rightarrow> js_error + state \<times> outbox" where
  "run [] s = Inr (s, [])"
| "run ((sid, ev) # evs) s =
     (case handle sid ev s of
        Inl e \<Rightarrow> Inl e
      | Inr (s', out) \<Rightarrow>
          (case run evs s' of Inl e \<Rightarrow> Inl e | Inr (s'', out') \<Rightarrow> Inr (s'', out @ out')))"

inductive reachable :: "state \<Rightarrow> bool" where
  init: "reachable init_state"
| step: "reachable s \<Longrightarrow> handle sid ev s = Inr (s', out) \<Longrightarrow> reachable s'"

subsection \<open>Reading a game from a participant's side\<close>

text \<open>The handlers pick the row, the target secret and the opponent with the test
  \<open>game.player1 === socket.id\<close>; these functions name the three choices.\<close>

definition guessesArray_of :: "string \<Rightarrow> game \<Rightarrow> guessData list" where
  "guessesArray_of sid g = (if player1 g = sid then guesses1 g else guesses2 g)"

definition targetSecret_of :: "string \<Rightarrow> game \<Rightarrow> int list option" where
  "targetSecret_of sid g = (if player1 g = sid then secret2 g else secret1 g)"

definition opponent_of :: "string \<Rightarrow> game \<Rightarrow> string" where
  "opponent_of sid g = (if player1 g = sid then player2 g else player1 g)"

definition append_guess :: "string \<Rightarrow> guessData \<Rightarrow> game \<Rightarrow> game" where
  "append_guess sid gd g =
     (if player1 g = sid then g\<lparr>guesses1 := guesses1 g @ [gd]\<rparr>
      else g\<lparr>guesses2 := guesses2 g @ [gd]\<rparr>)"

definition write_secret :: "string \<Rightarrow> int list option \<Rightarrow> game \<Rightarrow> game" where
  "write_secret sid code g =
     (if player1 g = sid then g\<lparr>secret1 := code\<rparr> else g\<lparr>secret2 := code\<rparr>)"

text \<open>Whether a result carries a \<open>guess_error\<close> addressed to the connection \<open>sid\<close>.\<close>

definition is_guess_error :: "msg \<Rightarrow> bool" where
  "is_guess_error m = (case m of guess_error gameId e \<Rightarrow> True | _ \<Rightarrow> False)"

definition guess_error_sent_to :: "string \<Rightarrow> js_error + state \<times> outbox \<Rightarrow> bool" where
  "guess_error_sent_to sid res =
     (case res of
        Inl e \<Rightarrow> False
      | Inr (s', out) \<Rightarrow> list_ex (\<lambda>(d, m). d = ToSocket sid \<and> is_guess_error m) out)"

subsection \<open>The failure kinds of the specification\<close>

text \<open>
  The specification names four ways a guess submission fails and lists them in the
  order in which they are tested (section 4.2): the session does not exist; the secrets
  are not both committed; the caller is not a participant; the caller's row already has
  ten entries. A secret commitment fails in the first or the third way. These two
  functions classify a request by those words, without running the handler.
\<close>

datatype failure = SessionNotFound | SecretsNotReady | NotAParticipant | AttemptsExhausted

definition spec_guess_failure :: "string \<Rightarrow> string \<Rightarrow> state \<Rightarrow> failure option" where
  "spec_guess_failure sid gameId s =
     (case activeGames_get s gameId of
        None \<Rightarrow> Some SessionNotFound
      | Some (r, g) \<Rightarrow>
          if \<not> bothCodesSet g then Some SecretsNotReady
          else if player1 g \<noteq> sid \<and> player2 g \<noteq> sid then Some NotAParticipant
          else if length (guessesArray_of sid g) \<ge> 10 then Some AttemptsExhausted
          else None)"

definition spec_commit_failure :: "string \<Rightarrow> string \<Rightarrow> state \<Rightarrow> failure option" where
  "spec_commit_failure sid gameId s =
     (case activeGames_get s gameId of
        None \<Rightarrow> Some SessionNotFound
      | Some (r, g) \<Rightarrow>
          if player1 g \<noteq> sid \<and> player2 g \<noteq> sid then Some NotAParticipant else None)"

subsection \<open>Bookkeeping for the proofs\<close>

text \<open>The number of entries of a secret copy that do not carry the mark \<open>-1\<close>.\<close>

definition unmarked :: "int list \<Rightarrow> nat" where
  "unmarked xs = length (filter (\<lambda>v. v \<noteq> - 1) xs)"

text \<open>What holds of every game object in a state built by the handlers.\<close>

definition game_ok :: "game \<Rightarrow> bool" where
  "game_ok g \<longleftrightarrow>
     length (guesses1 g) \<le> 10 \<and> length (guesses2 g) \<le> 10 \<and>
     (bothCodesSet g \<or> secret1 g = None \<or> secret2 g = None)"

text \<open>Every reference held by \<open>activeGames\<close> points into the store.\<close>

definition refs_valid :: "state \<Rightarrow> bool" where
  "refs_valid s = list_all (\<lambda>(gameId, r). r < length (heap s)) (activeGames s)"

subsection \<open>Example states\<close>

definition alice :: user where
  "alice = \<lparr>username = Some ''alice'', socketId = ''A'', status = ''online''\<rparr>"

definition bob :: user where
  "bob = \<lparr>username = Some ''bob'', socketId = ''B'', status = ''online''\<rparr>"

text \<open>Only the connection \<open>B\<close> has registered.\<close>

definition only_bob_online :: state where
  "only_bob_online = \<lparr>onlineUsers = [(''B'', bob)], activeGames = [], heap = []\<rparr>"

text \<open>Both connections have registered; no game yet.\<close>

definition both_online :: state where
  "both_online = \<lparr>onlineUsers = [(''A'', alice), (''B'', bob)], activeGames = [], heap = []\<rparr>"

text \<open>The events that lead from the empty state to a game in progress between \<open>A\<close>
  (secret \<open>[1,2,3,4]\<close>) and \<open>B\<close> (secret \<open>[4,3,2,1]\<close>), created at time 42.\<close>

definition scenario_setup :: "(string \<times> event) list" where
  "scenario_setup =
     [(''A'', On_register_user (UserString ''alice'')),
      (''B'', On_register_user (UserObject (Some ''bob''))),
      (''A'', On_send_challenge ''B''),
      (''B'', On_accept_challenge ''A'' 42),
      (''A'', On_set_secret_code ''A_B_42'' (Some [1, 2, 3, 4])),
      (''B'', On_set_secret_code ''A_B_42'' (Some [4, 3, 2, 1]))]"

definition scenario_game :: game where
  "scenario_game =
     \<lparr>player1 = ''A'', player2 = ''B'', secret1 = Some [1, 2, 3, 4], secret2 = Some [4, 3, 2, 1],
      guesses1 = [], guesses2 = [], bothCodesSet = True\<rparr>"

definition scenario_state :: state where
  "scenario_state =
     \<lparr>onlineUsers = [(''A'', alice), (''B'', bob)], activeGames = [(''A_B_42'', 0)],
      heap = [scenario_game]\<rparr>"

text \<open>The same game before \<open>B\<close> has committed a secret.\<close>

definition awaiting_state :: state where
  "awaiting_state =
     \<lparr>onlineUsers = [(''A'', alice), (''B'', bob)], activeGames = [(''A_B_42'', 0)],
      heap = [scenario_game\<lparr>secret2 := None, bothCodesSet := False\<rparr>]\<rparr>"

text \<open>The state a run from the empty state ends in, when no handler throws.\<close>

definition final_state :: "(string \<times> event) list \<Rightarrow> state option" where
  "final_state evs = (case run evs init_state of Inl e \<Rightarrow> None | Inr (s, out) \<Rightarrow> Some s)"

text \<open>\<open>A\<close> then guesses \<open>[1,1,1,1]\<close> again and again; against \<open>[4,3,2,1]\<close> every such guess
  scores one exact peg. After nine guesses one attempt is left, after ten none.\<close>

definition poor_guess :: guessData where
  "poor_guess = \<lparr>guess = [1, 1, 1, 1], feedback = [''black'']\<rparr>"

definition nine_game :: game where
  "nine_game = scenario_game\<lparr>guesses1 := replicate 9 poor_guess\<rparr>"

definition nine_state :: state where
  "nine_state =
     \<lparr>onlineUsers = [(''A'', alice), (''B'', bob)], activeGames = [(''A_B_42'', 0)],
      heap = [nine_game]\<rparr>"

definition exhausted_game :: game where
  "exhausted_game = scenario_game\<lparr>guesses1 := replicate 10 poor_guess\<rparr>"

definition exhausted_state :: state where
  "exhausted_state =
     \<lparr>onlineUsers = [(''A'', alice), (''B'', bob)], activeGames = [(''A_B_42'', 0)],
      heap = [exhausted_game]\<rparr>"

section \<open>Properties of the feedback engine\<close>

subsection \<open>Counting unmarked entries\<close>

lemma unmarked_append: "unmarked (xs @ ys) = unmarked xs + unmarked ys"
  by (simp add: unmarked_def)

lemma unmarked_le_length: "unmarked xs \<le> length xs"
  by (simp add: unmarked_def)

lemma unmarked_mark: "unmarked (xs[i := - 1]) \<le> unmarked xs"
proof (induction xs arbitrary: i)
  case Nil
  then show ?case by simp
next
  case (Cons x xs)
  then show ?case by (cases i) (auto simp: unmarked_def le_SucI)
qed

lemma unmarked_take_Suc:
  "n < length xs \<Longrightarrow> unmarked (take (Suc n) xs) = unmarked (take n xs) + (if xs ! n = - 1 then 0 else 1)"
  by (simp add: take_Suc_conv_app_nth unmarked_append) (simp add: unmarked_def)

lemma black_pass_inv:
  assumes "n \<le> length secret"
    and "fold black_step [0..<n] (0, secret, gs) = (b, sc, gc)"
  shows "length sc = length secret \<and> length gc = length gs \<and> b + unmarked (take n sc) \<le> n
    \<and> unmarked sc \<le> unmarked secret"
  using assms
proof (induction n arbitrary: b sc gc)
  case 0
  then show ?case by (simp add: unmarked_def)
next
  case (Suc n)
  obtain b0 sc0 gc0 where st: "fold black_step [0..<n] (0, secret, gs) = (b0, sc0, gc0)"
    by (cases "fold black_step [0..<n] (0, secret, gs)") auto
  from Suc.prems have n: "n < length secret" by simp
  from Suc.IH [OF _ st] n
  have ih: "length sc0 = length secret" "length gc0 = length gs"
    "b0 + unmarked (take n sc0) \<le> n" "unmarked sc0 \<le> unmarked secret"
    by simp_all
  from Suc.prems(2) st have step: "black_step n (b0, sc0, gc0) = (b, sc, gc)"
    by simp
  show ?case
  proof (cases "n < length gc0 \<and> sc0 ! n = gc0 ! n")
    case True
    with step have eq: "b = Suc b0" "sc = sc0[n := - 1]" "gc = gc0[n := - 1]"
      by (simp_all add: black_step_def)
    have "unmarked (take (Suc n) sc) = unmarked (take n sc0)"
      using n ih(1) eq(2) by (simp add: unmarked_take_Suc)
    moreover have "unmarked sc \<le> unmarked sc0"
      unfolding eq(2) by (rule unmarked_mark)
    ultimately show ?thesis using ih eq by simp
  next
    case False
    with step have eq: "b = b0" "sc = sc0" "gc = gc0"
      by (auto simp: black_step_def)
    have "unmarked (take (Suc n) sc) \<le> Suc (unmarked (take n sc0))"
      using n ih(1) eq(2) by (simp add: unmarked_take_Suc)
    then show ?thesis using ih eq by simp
  qed
qed

lemma white_pass_bound:
  "fold white_step vs (w0, gc0) = (w, gc) \<Longrightarrow> w \<le> w0 + unmarked vs"
proof (induction vs arbitrary: w0 gc0)
  case Nil
  then show ?case by simp
next
  case (Cons v vs)
  obtain w1 gc1 where st: "white_step v (w0, gc0) = (w1, gc1)"
    by (cases "white_step v (w0, gc0)") auto
  then have "w1 \<le> w0 + (if v = - 1 then 0 else 1)"
    by (auto simp: white_step_def Let_def split: if_splits)
  moreover from Cons.prems st have "w \<le> w1 + unmarked vs"
    by (auto intro: Cons.IH)
  ultimately show ?case by (auto simp: unmarked_def split: if_splits)
qed

lemma counts_replicate:
  "exactCount (replicate b ''black'' @ replicate w ''white'') = b"
  "colorCount (replicate b ''black'' @ replicate w ''white'') = w"
  by (simp_all add: exactCount_def colorCount_def)

lemma feedback_counts:
  assumes "black_pass secret gs = (b, sc, gc)" and "white_pass sc gc = (w, gc')"
  shows "calculateFeedback secret gs = replicate b ''black'' @ replicate w ''white''"
  using assms by (simp add: calculateFeedback_def)

lemma feedback_bounds:
  "exactCount (calculateFeedback secret gs) + colorCount (calculateFeedback secret gs) \<le> length secret"
  "colorCount (calculateFeedback secret gs) \<le> unmarked secret"
  "length (calculateFeedback secret gs) \<le> length secret"
proof -
  obtain b sc gc where bp: "black_pass secret gs = (b, sc, gc)"
    by (cases "black_pass secret gs") auto
  obtain w gc' where wp: "white_pass sc gc = (w, gc')"
    by (cases "white_pass sc gc") auto
  have fb: "calculateFeedback secret gs = replicate b ''black'' @ replicate w ''white''"
    using bp wp by (rule feedback_counts)
  from bp have inv0: "length sc = length secret \<and> length gc = length gs
      \<and> b + unmarked (take (length secret) sc) \<le> length secret \<and> unmarked sc \<le> unmarked secret"
    unfolding black_pass_def by (rule black_pass_inv [OF le_refl])
  then have inv: "length sc = length secret" "unmarked sc \<le> unmarked secret" by simp_all
  have "take (length secret) sc = sc" using inv(1) by simp
  with inv0 have inv2: "b + unmarked sc \<le> length secret" by simp
  from wp have "w \<le> unmarked sc"
    using white_pass_bound [of sc 0 gc w gc'] by (simp add: white_pass_def)
  with inv inv2 have "b + w \<le> length secret" "w \<le> unmarked secret" by simp_all
  then show "exactCount (calculateFeedback secret gs) + colorCount (calculateFeedback secret gs) \<le> length secret"
    "colorCount (calculateFeedback secret gs) \<le> unmarked secret"
    "length (calculateFeedback secret gs) \<le> length secret"
    by (simp_all add: fb counts_replicate)
qed


subsection \<open>Scoring a code against itself\<close>

lemma mark_next:
  assumes "n < length c"
  shows "(replicate n a @ drop n c)[n := a] = replicate (Suc n) a @ drop (Suc n) c"
proof -
  have "drop n c = c ! n # drop (Suc n) c"
    using assms by (simp add: Cons_nth_drop_Suc)
  then have "(replicate n a @ drop n c)[n := a] = replicate n a @ a # drop (Suc n) c"
    by (simp add: list_update_append)
  then show ?thesis by (simp add: replicate_app_Cons_same)
qed

lemma black_pass_self:
  "n \<le> length c \<Longrightarrow>
   fold black_step [0..<n] (0, c, c) = (n, replicate n (- 1) @ drop n c, replicate n (- 1) @ drop n c)"
proof (induction n)
  case 0
  then show ?case by simp
next
  case (Suc n)
  then have n: "n < length c" by simp
  then have len: "n < length (replicate n (- 1 :: int) @ drop n c)" by simp
  from Suc n have "fold black_step [0..<Suc n] (0, c, c)
      = black_step n (n, replicate n (- 1) @ drop n c, replicate n (- 1) @ drop n c)"
    by simp
  also have "\<dots> = (Suc n, (replicate n (- 1) @ drop n c)[n := - 1], (replicate n (- 1) @ drop n c)[n := - 1])"
    using len by (simp add: black_step_def)
  finally show ?case using n by (simp only: mark_next)
qed

lemma white_step_marked: "white_step (- 1) st = st"
  by (cases st) (simp add: white_step_def)

lemma white_pass_marked: "white_pass (replicate n (- 1)) gc = (0, gc)"
proof -
  have skip: "fold white_step vs st = st" if "set vs \<subseteq> {- 1}" for vs st
    using that by (induction vs) (simp_all add: white_step_marked)
  have "set (replicate n (- 1 :: int)) \<subseteq> {- 1}" by auto
  then have "fold white_step (replicate n (- 1)) (0, gc) = (0, gc)" by (rule skip)
  then show ?thesis unfolding white_pass_def .
qed

lemma calculateFeedback_self: "calculateFeedback c c = replicate (length c) ''black''"
proof -
  have "black_pass c c = (length c, replicate (length c) (- 1), replicate (length c) (- 1))"
    using black_pass_self [of "length c" c] by (simp add: black_pass_def)
  moreover have "white_pass (replicate (length c) (- 1)) (replicate (length c) (- 1))
      = (0, replicate (length c) (- 1))"
    by (rule white_pass_marked)
  ultimately show ?thesis by (simp add: calculateFeedback_def)
qed

lemmas feedback_defs = calculateFeedback_def black_pass_def white_pass_def black_step_def
  white_step_def indexOf_def exactCount_def colorCount_def Let_def

subsection \<open>The worked example with duplicate values\<close>

text \<open>
  The specification's example \<open>secret = [1,1,2,3]\<close>, \<open>guess = [1,2,2,2]\<close> is said to
  give one exact and one colour peg. Positions 0 and 2 both agree, so the first loop
  counts two exact pegs and marks both; the remaining secret values 1 and 3 do not occur
  among the remaining guess values. The code does not produce the count (1, 1).
\<close>

theorem worked_example_not_one_one:
  "\<not> (exactCount (calculateFeedback [1, 1, 2, 3] [1, 2, 2, 2]) = 1
      \<and> colorCount (calculateFeedback [1, 1, 2, 3] [1, 2, 2, 2]) = 1)"
  by code_simp

text \<open>
  Claim C1, as amended: for \<open>secret = [1,1,2,3]\<close> and \<open>guess = [1,2,2,2]\<close>,
  \<open>calculateFeedback\<close> yields exactly two exact pegs and no colour peg; the two-pass
  policy of the specification gives the same counts.
\<close>

theorem worked_example_two_exact:
  "calculateFeedback [1, 1, 2, 3] [1, 2, 2, 2] = [''black'', ''black'']
   \<and> exactCount (calculateFeedback [1, 1, 2, 3] [1, 2, 2, 2]) = 2
   \<and> colorCount (calculateFeedback [1, 1, 2, 3] [1, 2, 2, 2]) = 0
   \<and> spec_exact [1, 1, 2, 3] [1, 2, 2, 2] = 2 \<and> spec_color [1, 1, 2, 3] [1, 2, 2, 2] = 0"
  by code_simp

subsection \<open>Bounds on the feedback\<close>

text \<open>
  Claim C2: for every secret and guess of equal length \<open>L\<close>, the number of exact pegs
  is between 0 and \<open>L\<close>, exact and colour pegs together are at most \<open>L\<close>, and so the
  returned array has at most \<open>L\<close> elements.
\<close>

theorem feedback_within_length:
  assumes "length secret = L" and "length gs = L"
  shows "0 \<le> exactCount (calculateFeedback secret gs)
    \<and> exactCount (calculateFeedback secret gs) \<le> L
    \<and> exactCount (calculateFeedback secret gs) + colorCount (calculateFeedback secret gs) \<le> L
    \<and> length (calculateFeedback secret gs) \<le> L"
  using feedback_bounds(1,3) [of secret gs] assms(1) by simp

theorem feedback_within_length_witness:
  "length [1, 2, 3, 4 :: int] = 4 \<and> length [2, 1, 3, 5 :: int] = 4
   \<and> exactCount (calculateFeedback [1, 2, 3, 4] [2, 1, 3, 5]) \<le> 4
   \<and> exactCount (calculateFeedback [1, 2, 3, 4] [2, 1, 3, 5])
       + colorCount (calculateFeedback [1, 2, 3, 4] [2, 1, 3, 5]) \<le> 4
   \<and> length (calculateFeedback [1, 2, 3, 4] [2, 1, 3, 5]) \<le> 4"
  using feedback_within_length [of "[1, 2, 3, 4]" 4 "[2, 1, 3, 5]"] by simp

subsection \<open>The mark \<open>-1\<close> as a code element\<close>

text \<open>
  Claim C8: \<open>-1\<close> is the consumed mark, so a secret element equal to \<open>-1\<close> is skipped
  by the colour loop (a round on \<open>-1\<close> changes nothing) and the colour pegs never exceed
  the number of secret elements other than \<open>-1\<close>. For \<open>secret = [-1,2]\<close> and
  \<open>guess = [2,-1]\<close> the code gives one colour peg where the two-pass policy of the
  specification gives two.
\<close>

theorem marker_hides_secret_element:
  "colorCount (calculateFeedback [- 1, 2] [2, - 1]) = 1
   \<and> spec_color [- 1, 2] [2, - 1] = 2
   \<and> spec_exact [- 1, 2] [2, - 1] = exactCount (calculateFeedback [- 1, 2] [2, - 1])
   \<and> (\<forall>st. white_step (- 1) st = st)
   \<and> (\<forall>secret gs. colorCount (calculateFeedback secret gs) \<le> unmarked secret)"
proof -
  have "colorCount (calculateFeedback [- 1, 2] [2, - 1]) = 1" by code_simp
  moreover have "spec_color [- 1, 2] [2, - 1] = 2" by code_simp
  moreover have "spec_exact [- 1, 2] [2, - 1] = exactCount (calculateFeedback [- 1, 2] [2, - 1])"
    by code_simp
  ultimately show ?thesis
    by (simp add: feedback_bounds(2) white_step_marked)
qed


subsection \<open>The code against the policy of the specification\<close>

lemma indexOf_loop_absent: "v \<notin> set xs \<Longrightarrow> indexOf_loop xs v k = - 1"
  by (induction xs arbitrary: k) auto

lemma indexOf_loop_first:
  "v \<notin> set xs \<Longrightarrow> indexOf_loop (xs @ v # ys) v k = int (k + length xs)"
  by (induction xs arbitrary: k) auto

lemma indexOf_absent: "v \<notin> set xs \<Longrightarrow> indexOf xs v = - 1"
  by (simp add: indexOf_def indexOf_loop_absent)

lemma indexOf_first: "v \<notin> set xs \<Longrightarrow> indexOf (xs @ v # ys) v = int (length xs)"
  by (simp add: indexOf_def indexOf_loop_first)

lemma white_step_absent: "v \<notin> set gc \<Longrightarrow> white_step v (w, gc) = (w, gc)"
  by (simp add: white_step_def indexOf_absent)

lemma white_step_first:
  "v \<noteq> - 1 \<Longrightarrow> v \<notin> set xs \<Longrightarrow>
   white_step v (w, xs @ v # ys) = (Suc w, xs @ (- 1) # ys)"
  by (simp add: white_step_def indexOf_first Let_def)

lemma white_pass_spec:
  "fst (fold white_step vs (w, gc))
     = w + spec_color_pass (filter (\<lambda>v. v \<noteq> - 1) vs) (filter (\<lambda>v. v \<noteq> - 1) gc)"
proof (induction vs arbitrary: w gc)
  case Nil
  show ?case by simp
next
  case (Cons v vs)
  show ?case
  proof (cases "v = - 1")
    case True
    then show ?thesis by (simp add: white_step_marked Cons.IH)
  next
    case False
    show ?thesis
    proof (cases "v \<in> set gc")
      case absent: False
      with False show ?thesis
        by (simp add: white_step_absent Cons.IH)
    next
      case True
      then obtain xs ys where gc: "gc = xs @ v # ys" and first: "v \<notin> set xs"
        by (auto dest: split_list_first)
      have "remove1 v (filter (\<lambda>v. v \<noteq> - 1) gc)
          = filter (\<lambda>v. v \<noteq> - 1) (xs @ (- 1) # ys)"
        using False first by (simp add: gc remove1_append)
      moreover have "v \<in> set (filter (\<lambda>v. v \<noteq> - 1) gc)"
        using False True by simp
      ultimately show ?thesis
        using False first
        by (simp add: gc white_step_first Cons.IH del: filter_append)
    qed
  qed
qed

lemma mark_at:
  assumes "n < length xs" and "length pre = n"
  shows "(pre @ drop n xs)[n := a] = (pre @ [a]) @ drop (Suc n) xs"
    and "pre @ drop n xs = (pre @ [xs ! n]) @ drop (Suc n) xs"
    and "(pre @ drop n xs) ! n = xs ! n"
proof -
  have d: "drop n xs = xs ! n # drop (Suc n) xs"
    using assms(1) by (simp add: Cons_nth_drop_Suc)
  show "(pre @ drop n xs)[n := a] = (pre @ [a]) @ drop (Suc n) xs"
    using assms(2) by (simp add: d list_update_append)
  show "pre @ drop n xs = (pre @ [xs ! n]) @ drop (Suc n) xs"
    by (simp add: d)
  show "(pre @ drop n xs) ! n = xs ! n"
    using assms by (simp add: nth_append)
qed

lemma black_pass_zip:
  assumes "length secret = length gs" and "n \<le> length secret"
  shows "fold black_step [0..<n] (0, secret, gs)
    = (length (filter (\<lambda>(s, g). s = g) (take n (zip secret gs))),
       map (\<lambda>(s, g). if s = g then - 1 else s) (take n (zip secret gs)) @ drop n secret,
       map (\<lambda>(s, g). if s = g then - 1 else g) (take n (zip secret gs)) @ drop n gs)"
  using assms(2)
proof (induction n)
  case 0
  show ?case by simp
next
  case (Suc n)
  let ?z = "zip secret gs"
  let ?S = "map (\<lambda>(s, g). if s = g then - 1 else s) (take n ?z)"
  let ?G = "map (\<lambda>(s, g). if s = g then - 1 else g) (take n ?z)"
  from Suc.prems assms(1) have n: "n < length secret" "n < length gs" "n < length ?z"
    by simp_all
  then have len: "length ?S = n" "length ?G = n" by simp_all
  have tk: "take (Suc n) ?z = take n ?z @ [(secret ! n, gs ! n)]"
    using n by (simp add: take_Suc_conv_app_nth)
  from Suc n have "fold black_step [0..<Suc n] (0, secret, gs)
      = black_step n (length (filter (\<lambda>(s, g). s = g) (take n ?z)),
          ?S @ drop n secret, ?G @ drop n gs)"
    by simp
  also have "\<dots> = (length (filter (\<lambda>(s, g). s = g) (take (Suc n) ?z)),
       map (\<lambda>(s, g). if s = g then - 1 else s) (take (Suc n) ?z) @ drop (Suc n) secret,
       map (\<lambda>(s, g). if s = g then - 1 else g) (take (Suc n) ?z) @ drop (Suc n) gs)"
  proof (cases "secret ! n = gs ! n")
    case True
    then show ?thesis
      unfolding black_step_def tk
      using n mark_at(1,3) [OF n(1) len(1)] mark_at(1,3) [OF n(2) len(2)]
      by simp
  next
    case False
    then show ?thesis
      unfolding black_step_def tk
      using n mark_at(2,3) [OF n(1) len(1)] mark_at(2,3) [OF n(2) len(2)]
      by simp
  qed
  finally show ?case .
qed

lemma unmarked_of_marked:
  assumes "- 1 \<notin> set (map fst z)"
  shows "filter (\<lambda>v. v \<noteq> - 1) (map (\<lambda>(s, g). if s = g then - 1 else s) z)
    = map fst (filter (\<lambda>(s, g). s \<noteq> g) z)"
  using assms by (induction z) auto

lemma unmarked_of_marked_guess:
  assumes "- 1 \<notin> set (map snd z)"
  shows "filter (\<lambda>v. v \<noteq> - 1) (map (\<lambda>(s, g). if s = g then - 1 else g) z)
    = map snd (filter (\<lambda>(s, g). s \<noteq> g) z)"
  using assms by (induction z) auto

text \<open>
  On codes of equal length that do not contain \<open>-1\<close>, the code awards exactly the pegs
  of the two-pass policy; only the mark separates the two.
\<close>

lemma calculateFeedback_refines_policy:
  assumes "length secret = length gs" and "- 1 \<notin> set secret" and "- 1 \<notin> set gs"
  shows "exactCount (calculateFeedback secret gs) = spec_exact secret gs
    \<and> colorCount (calculateFeedback secret gs) = spec_color secret gs"
proof -
  let ?z = "zip secret gs"
  let ?sc = "map (\<lambda>(s, g). if s = g then - 1 else s) ?z"
  let ?gc = "map (\<lambda>(s, g). if s = g then - 1 else g) ?z"
  have bp: "black_pass secret gs = (spec_exact secret gs, ?sc, ?gc)"
    using black_pass_zip [OF assms(1) le_refl] assms(1)
    by (simp add: black_pass_def spec_exact_def)
  obtain w gc' where wp: "white_pass ?sc ?gc = (w, gc')"
    by (cases "white_pass ?sc ?gc") auto
  have fs: "map fst ?z = secret" and sn: "map snd ?z = gs"
    using assms(1) by simp_all
  have "w = fst (fold white_step ?sc (0, ?gc))"
    using wp by (simp add: white_pass_def)
  also have "\<dots> = spec_color_pass (filter (\<lambda>v. v \<noteq> - 1) ?sc) (filter (\<lambda>v. v \<noteq> - 1) ?gc)"
    by (simp add: white_pass_spec)
  also have "\<dots> = spec_color secret gs"
    using assms(2,3) unmarked_of_marked [of ?z] unmarked_of_marked_guess [of ?z]
    unfolding fs sn by (simp add: spec_color_def Let_def)
  finally have w: "w = spec_color secret gs" .
  from feedback_counts [OF bp wp] show ?thesis
    by (simp add: counts_replicate w)
qed

section \<open>Properties of the socket controller\<close>

subsection \<open>The win test\<close>

lemma every_matches_iff:
  "every_matches gs ts \<longleftrightarrow> (\<forall>i<length gs. i < length ts \<and> gs ! i = ts ! i)"
  by (simp add: every_matches_def enumerate_eq_zip list_all_length)

lemma every_matches_self: "every_matches c c"
  by (simp add: every_matches_iff)

lemma every_matches_prefix: "prefix gs ts \<Longrightarrow> every_matches gs ts"
  by (auto simp: every_matches_iff prefix_def nth_append)

subsection \<open>The outcomes of \<open>submit_guess\<close>\<close>

lemma submit_guess_not_found:
  "activeGames_get s gameId = None \<Longrightarrow> submit_guess sid gameId gs s = Inr (s, [])"
  by (simp add: submit_guess_def)

lemma submit_guess_not_ready:
  "activeGames_get s gameId = Some (r, g) \<Longrightarrow> \<not> bothCodesSet g \<Longrightarrow>
   submit_guess sid gameId gs s = Inr (s, [(ToSocket sid, guess_error gameId err_secrets_not_ready)])"
  by (simp add: submit_guess_def)

lemma submit_guess_foreign:
  "activeGames_get s gameId = Some (r, g) \<Longrightarrow> bothCodesSet g \<Longrightarrow>
   player1 g \<noteq> sid \<Longrightarrow> player2 g \<noteq> sid \<Longrightarrow>
   submit_guess sid gameId gs s = Inr (s, [])"
  by (simp add: submit_guess_def)

lemma submit_guess_exhausted:
  "activeGames_get s gameId = Some (r, g) \<Longrightarrow> bothCodesSet g \<Longrightarrow>
   player1 g = sid \<or> player2 g = sid \<Longrightarrow> 10 \<le> length (guessesArray_of sid g) \<Longrightarrow>
   submit_guess sid gameId gs s = Inr (s, [(ToSocket sid, guess_error gameId err_attempts_exhausted)])"
  by (auto simp: submit_guess_def guessesArray_of_def Let_def)

lemma submit_guess_null_secret:
  "activeGames_get s gameId = Some (r, g) \<Longrightarrow> bothCodesSet g \<Longrightarrow>
   player1 g = sid \<or> player2 g = sid \<Longrightarrow> length (guessesArray_of sid g) < 10 \<Longrightarrow>
   targetSecret_of sid g = None \<Longrightarrow>
   submit_guess sid gameId gs s = Inl TypeError"
  by (auto simp: submit_guess_def guessesArray_of_def targetSecret_of_def Let_def)

lemma submit_guess_accepted:
  assumes "activeGames_get s gameId = Some (r, g)" and "bothCodesSet g"
    and "player1 g = sid \<or> player2 g = sid"
    and "length (guessesArray_of sid g) < 10"
    and "targetSecret_of sid g = Some ts"
  shows "submit_guess sid gameId gs s =
    Inr (store s r (append_guess sid \<lparr>guess = gs, feedback = calculateFeedback ts gs\<rparr> g),
         [(ToSocket sid, guess_feedback gameId \<lparr>guess = gs, feedback = calculateFeedback ts gs\<rparr>
              (every_matches gs ts) (length (guessesArray_of sid g) = 9 \<or> every_matches gs ts)),
          (ToSocket (opponent_of sid g),
             opponent_guess gameId \<lparr>guess = gs, feedback = calculateFeedback ts gs\<rparr>)]
         @ (if length (guessesArray_of sid g) = 9 \<or> every_matches gs ts
            then [(ToSocket (opponent_of sid g),
                     opponent_game_status gameId (every_matches gs ts)
                       (\<not> every_matches gs ts \<and> length (guessesArray_of sid g) = 9))]
            else []))"
proof -
  have nine: "(10 \<le> Suc n) = (n = 9)" if "n < 10" for n :: nat
    using that by arith
  show ?thesis
  proof (cases "player1 g = sid")
    case True
    with assms show ?thesis
      by (simp add: submit_guess_def guessesArray_of_def targetSecret_of_def opponent_of_def
          append_guess_def Let_def nine)
  next
    case False
    with assms show ?thesis
      by (simp add: submit_guess_def guessesArray_of_def targetSecret_of_def opponent_of_def
          append_guess_def Let_def nine)
  qed
qed

subsection \<open>The outcomes of \<open>set_secret_code\<close>\<close>

lemma set_secret_code_not_found:
  "activeGames_get s gameId = None \<Longrightarrow> set_secret_code sid gameId code s = (s, [])"
  by (simp add: set_secret_code_def)

lemma set_secret_code_foreign:
  "activeGames_get s gameId = Some (r, g) \<Longrightarrow> player1 g \<noteq> sid \<Longrightarrow> player2 g \<noteq> sid \<Longrightarrow>
   set_secret_code sid gameId code s = (s, [])"
  by (simp add: set_secret_code_def)

lemma set_secret_code_participant:
  assumes "activeGames_get s gameId = Some (r, g)" and "player1 g = sid \<or> player2 g = sid"
  shows "set_secret_code sid gameId code s =
    (if secret1 (write_secret sid code g) \<noteq> None \<and> secret2 (write_secret sid code g) \<noteq> None
     then (store s r ((write_secret sid code g)\<lparr>bothCodesSet := True\<rparr>),
           [(ToSocket (player1 g), both_codes_set gameId),
            (ToSocket (player2 g), both_codes_set gameId)])
     else (store s r (write_secret sid code g),
           [(ToSocket (opponent_of sid g), opponent_code_set gameId)]))"
  using assms
  by (auto simp: set_secret_code_def write_secret_def opponent_of_def Let_def)


subsection \<open>What the handlers do to the store\<close>

lemma activeGames_get_SomeD:
  assumes "activeGames_get s gameId = Some (r, g)"
  shows "map_of (activeGames s) gameId = Some r" and "r < length (heap s)" and "heap s ! r = g"
  using assms by (auto simp: activeGames_get_def deref_def split: option.splits if_splits)

lemma heap_store [simp]: "heap (store s r g) = (heap s)[r := g]"
  by (simp add: store_def)

lemma activeGames_store [simp]: "activeGames (store s r g) = activeGames s"
  by (simp add: store_def)

lemma onlineUsers_store [simp]: "onlineUsers (store s r g) = onlineUsers s"
  by (simp add: store_def)

lemma heap_register_user: "heap (fst (register_user sid ud s)) = heap s"
  by (simp add: register_user_def Let_def)

lemma heap_send_challenge: "fst (send_challenge sid t s) = s"
  by (simp add: send_challenge_def split: option.splits)

lemma heap_disconnect: "heap (fst (disconnect sid s)) = heap s"
  by (simp add: disconnect_def Let_def split: prod.splits)

lemma heap_accept_challenge:
  "heap (fst (accept_challenge sid c now s)) = heap s
   \<or> heap (fst (accept_challenge sid c now s)) = heap s @ [new_game c sid]"
  by (simp add: accept_challenge_def Let_def split: option.splits)

text \<open>A write of a handler to a game object: a secret slot is overwritten (and the flag
  possibly raised), or a guess is appended to a row with fewer than ten entries.\<close>

lemma heap_set_secret_code:
  "heap (fst (set_secret_code sid gameId code s)) = heap s
   \<or> (\<exists>r g. r < length (heap s) \<and> heap s ! r = g \<and>
        (heap (fst (set_secret_code sid gameId code s)) = (heap s)[r := write_secret sid code g]
           \<and> (secret1 (write_secret sid code g) = None \<or> secret2 (write_secret sid code g) = None)
         \<or> heap (fst (set_secret_code sid gameId code s))
             = (heap s)[r := (write_secret sid code g)\<lparr>bothCodesSet := True\<rparr>]))"
proof (cases "activeGames_get s gameId")
  case None
  then show ?thesis by (simp add: set_secret_code_not_found)
next
  case (Some p)
  obtain r g where p: "p = (r, g)" by (cases p)
  note get = Some [unfolded p]
  show ?thesis
  proof (cases "player1 g = sid \<or> player2 g = sid")
    case True
    from activeGames_get_SomeD [OF get] set_secret_code_participant [OF get True, of code]
    show ?thesis by (auto split: if_splits)
  next
    case False
    with get show ?thesis by (simp add: set_secret_code_foreign)
  qed
qed

lemma heap_submit_guess:
  assumes "submit_guess sid gameId gs s = Inr (s', out)"
  shows "heap s' = heap s
   \<or> (\<exists>r g gd. r < length (heap s) \<and> heap s ! r = g \<and> length (guessesArray_of sid g) < 10
        \<and> heap s' = (heap s)[r := append_guess sid gd g])"
proof (cases "activeGames_get s gameId")
  case None
  with assms show ?thesis by (simp add: submit_guess_not_found)
next
  case (Some p)
  obtain r g where p: "p = (r, g)" by (cases p)
  note get = Some [unfolded p]
  note D = activeGames_get_SomeD [OF get]
  consider (unready) "\<not> bothCodesSet g"
    | (foreign) "bothCodesSet g" "player1 g \<noteq> sid" "player2 g \<noteq> sid"
    | (full) "bothCodesSet g" "player1 g = sid \<or> player2 g = sid" "10 \<le> length (guessesArray_of sid g)"
    | (null) "bothCodesSet g" "player1 g = sid \<or> player2 g = sid" "length (guessesArray_of sid g) < 10"
        "targetSecret_of sid g = None"
    | (ok) ts where "bothCodesSet g" "player1 g = sid \<or> player2 g = sid"
        "length (guessesArray_of sid g) < 10" "targetSecret_of sid g = Some ts"
    by (metis not_le option.exhaust)
  then show ?thesis
  proof cases
    case unready
    with assms get show ?thesis by (simp add: submit_guess_not_ready)
  next
    case foreign
    with assms get show ?thesis by (simp add: submit_guess_foreign)
  next
    case full
    with assms get show ?thesis by (simp add: submit_guess_exhausted)
  next
    case null
    with assms get show ?thesis by (simp add: submit_guess_null_secret)
  next
    case ok
    from assms submit_guess_accepted [OF get ok(1,2,3,4), of gs]
    have "heap s' = (heap s)[r := append_guess sid \<lparr>guess = gs, feedback = calculateFeedback ts gs\<rparr> g]"
      by auto
    with D ok(3) show ?thesis by blast
  qed
qed

subsection \<open>The flag \<open>bothCodesSet\<close> is never lowered\<close>

lemma bothCodesSet_write_secret [simp]: "bothCodesSet (write_secret sid code g) = bothCodesSet g"
  by (simp add: write_secret_def)

lemma bothCodesSet_append_guess [simp]: "bothCodesSet (append_guess sid gd g) = bothCodesSet g"
  by (simp add: append_guess_def)

lemma flag_kept:
  assumes "handle sid ev s = Inr (s', out)" and "r < length (heap s)" and "bothCodesSet (heap s ! r)"
  shows "r < length (heap s') \<and> bothCodesSet (heap s' ! r)"
proof (cases ev)
  case (On_register_user ud)
  with assms heap_register_user [of sid ud s] show ?thesis by auto
next
  case On_get_users
  with assms show ?thesis by (auto simp: get_users_def)
next
  case (On_send_challenge t)
  with assms heap_send_challenge [of sid t s] show ?thesis by auto
next
  case (On_accept_challenge c now)
  with assms heap_accept_challenge [of sid c now s] show ?thesis
    by (auto simp: nth_append)
next
  case (On_set_secret_code gameId code)
  with assms heap_set_secret_code [of sid gameId code s] show ?thesis
    by (auto simp: nth_list_update)
next
  case (On_submit_guess gameId gs)
  with assms heap_submit_guess [of sid gameId gs s s' out] show ?thesis
    by (auto simp: nth_list_update)
next
  case On_disconnect
  with assms heap_disconnect [of sid s] show ?thesis by auto
qed

subsection \<open>Every game object stays well formed\<close>

lemma game_ok_new_game: "game_ok (new_game c sid)"
  by (simp add: game_ok_def new_game_def)

lemma game_ok_write_secret:
  "game_ok g \<Longrightarrow> secret1 (write_secret sid code g) = None \<or> secret2 (write_secret sid code g) = None
   \<Longrightarrow> game_ok (write_secret sid code g)"
  by (auto simp: game_ok_def write_secret_def split: if_splits)

lemma game_ok_raise_flag: "game_ok g \<Longrightarrow> game_ok ((write_secret sid code g)\<lparr>bothCodesSet := True\<rparr>)"
  by (auto simp: game_ok_def write_secret_def)

lemma game_ok_append_guess:
  "game_ok g \<Longrightarrow> length (guessesArray_of sid g) < 10 \<Longrightarrow> game_ok (append_guess sid gd g)"
  by (auto simp: game_ok_def append_guess_def guessesArray_of_def)

lemma list_all_update: "list_all P xs \<Longrightarrow> P x \<Longrightarrow> list_all P (xs[i := x])"
  by (induction xs arbitrary: i) (auto split: nat.splits)

lemma handle_game_ok:
  assumes "handle sid ev s = Inr (s', out)" and "list_all game_ok (heap s)"
  shows "list_all game_ok (heap s')"
proof (cases ev)
  case (On_register_user ud)
  with assms heap_register_user [of sid ud s] show ?thesis by auto
next
  case On_get_users
  with assms show ?thesis by (auto simp: get_users_def)
next
  case (On_send_challenge t)
  with assms heap_send_challenge [of sid t s] show ?thesis by auto
next
  case (On_accept_challenge c now)
  with assms heap_accept_challenge [of sid c now s] show ?thesis
    by (auto simp: game_ok_new_game)
next
  case (On_set_secret_code gameId code)
  with assms have s': "s' = fst (set_secret_code sid gameId code s)" by auto
  from assms(2) have nth: "game_ok (heap s ! r)" if "r < length (heap s)" for r
    using that by (simp add: list_all_length)
  from heap_set_secret_code [of sid gameId code s] show ?thesis
    unfolding s' using assms(2) nth
    by (auto intro!: list_all_update game_ok_write_secret game_ok_raise_flag)
next
  case (On_submit_guess gameId gs)
  from assms(2) have nth: "game_ok (heap s ! r)" if "r < length (heap s)" for r
    using that by (simp add: list_all_length)
  from On_submit_guess assms heap_submit_guess [of sid gameId gs s s' out] show ?thesis
    using nth by (auto intro!: list_all_update game_ok_append_guess)
next
  case On_disconnect
  with assms heap_disconnect [of sid s] show ?thesis by auto
qed

lemma reachable_game_ok: "reachable s \<Longrightarrow> list_all game_ok (heap s)"
proof (induction rule: reachable.induct)
  case init
  show ?case by (simp add: init_state_def)
next
  case (step s sid ev s' out)
  then show ?case by (auto intro: handle_game_ok)
qed

lemma reachable_get_ok:
  assumes "reachable s" and "activeGames_get s gameId = Some (r, g)"
  shows "game_ok g"
  using reachable_game_ok [OF assms(1)] activeGames_get_SomeD(2,3) [OF assms(2)]
  by (auto simp: list_all_length)

lemma run_reachable:
  "reachable s \<Longrightarrow> run evs s = Inr (s', out) \<Longrightarrow> reachable s'"
proof (induction evs arbitrary: s out)
  case Nil
  then show ?case by simp
next
  case (Cons p evs)
  obtain sid ev where p: "p = (sid, ev)" by (cases p)
  from Cons.prems(2) obtain s1 out1 where h: "handle sid ev s = Inr (s1, out1)"
    by (auto simp: p split: sum.splits)
  with Cons.prems(2) obtain out2 where r: "run evs s1 = Inr (s', out2)"
    by (auto simp: p split: sum.splits)
  from Cons.prems(1) h have "reachable s1" by (rule reachable.step)
  then show ?case using r by (rule Cons.IH)
qed

subsection \<open>References into the store stay valid\<close>

lemma set_AList_update: "set (AList.update k v al) \<subseteq> insert (k, v) (set al)"
  by (induction al) auto

lemma set_AList_delete: "set (AList.delete k al) \<subseteq> set al"
  by (auto simp: AList.delete_eq)

lemma disconnect_step_subset:
  "set (fst (disconnect_step sid s entry (games, out))) \<subseteq> set games"
  by (cases entry)
    (auto simp: disconnect_step_def Let_def split: option.splits
      dest: subsetD [OF set_AList_delete])

lemma disconnect_fold_subset:
  "set (fst (fold (disconnect_step sid s) entries acc)) \<subseteq> set (fst acc)"
proof (induction entries arbitrary: acc)
  case Nil
  show ?case by simp
next
  case (Cons e entries)
  obtain games out where acc: "acc = (games, out)" by (cases acc)
  have "set (fst (fold (disconnect_step sid s) entries (disconnect_step sid s e acc)))
      \<subseteq> set (fst (disconnect_step sid s e acc))"
    by (rule Cons.IH)
  also have "\<dots> \<subseteq> set (fst acc)"
    unfolding acc by (simp add: disconnect_step_subset)
  finally show ?case by simp
qed

lemma activeGames_disconnect: "set (activeGames (fst (disconnect sid s))) \<subseteq> set (activeGames s)"
proof -
  define s1 where "s1 = (if has (onlineUsers s) sid
    then s\<lparr>onlineUsers := AList.delete sid (onlineUsers s)\<rparr> else s)"
  define out1 where "out1 = (if has (onlineUsers s) sid
    then [(ToAll, users_list_update (map snd (AList.delete sid (onlineUsers s))))] else [])"
  have games: "activeGames s1 = activeGames s" by (simp add: s1_def)
  have "disconnect sid s =
      (case fold (disconnect_step sid s1) (activeGames s) (activeGames s, out1) of
         (games, out2) \<Rightarrow> (s1\<lparr>activeGames := games\<rparr>, out2))"
    by (simp add: disconnect_def s1_def out1_def Let_def)
  then have "activeGames (fst (disconnect sid s))
      = fst (fold (disconnect_step sid s1) (activeGames s) (activeGames s, out1))"
    by (simp split: prod.splits)
  then show ?thesis
    using disconnect_fold_subset [of sid s1 "activeGames s" "(activeGames s, out1)"] by simp
qed

lemma refs_valid_handle:
  assumes "handle sid ev s = Inr (s', out)" and "refs_valid s"
  shows "refs_valid s'"
proof (cases ev)
  case (On_register_user ud)
  with assms show ?thesis by (auto simp: refs_valid_def register_user_def Let_def)
next
  case On_get_users
  with assms show ?thesis by (auto simp: get_users_def)
next
  case (On_send_challenge t)
  with assms heap_send_challenge [of sid t s] show ?thesis by auto
next
  case (On_accept_challenge c now)
  with assms have s': "s' = fst (accept_challenge sid c now s)" by auto
  have "s' = s \<or> s' = s\<lparr>activeGames := AList.update (make_gameId c sid now) (length (heap s)) (activeGames s),
      heap := heap s @ [new_game c sid]\<rparr>"
    unfolding s' by (simp add: accept_challenge_def Let_def split: option.splits)
  then show ?thesis
  proof
    assume "s' = s"
    with assms(2) show ?thesis by simp
  next
    assume new: "s' = s\<lparr>activeGames := AList.update (make_gameId c sid now) (length (heap s)) (activeGames s),
      heap := heap s @ [new_game c sid]\<rparr>"
    have "r < Suc (length (heap s))"
      if "(k, r) \<in> set (AList.update (make_gameId c sid now) (length (heap s)) (activeGames s))"
      for k r
    proof -
      from that set_AList_update [of "make_gameId c sid now" "length (heap s)" "activeGames s"]
      have "(k, r) = (make_gameId c sid now, length (heap s)) \<or> (k, r) \<in> set (activeGames s)"
        by blast
      with assms(2) show ?thesis
        by (auto simp: refs_valid_def list_all_iff)
    qed
    then show ?thesis
      unfolding new by (auto simp: refs_valid_def list_all_iff)
  qed
next
  case (On_set_secret_code gameId code)
  with assms have s': "s' = fst (set_secret_code sid gameId code s)" by auto
  have "activeGames s' = activeGames s \<and> length (heap s') = length (heap s)"
    unfolding s'
    by (auto simp: set_secret_code_def Let_def split: option.splits)
  with assms(2) show ?thesis by (simp add: refs_valid_def)
next
  case (On_submit_guess gameId gs)
  with assms have "activeGames s' = activeGames s \<and> length (heap s') = length (heap s)"
    by (auto simp: submit_guess_def Let_def split: option.splits if_splits)
  with assms(2) show ?thesis by (simp add: refs_valid_def)
next
  case On_disconnect
  with assms have s': "s' = fst (disconnect sid s)" by auto
  from activeGames_disconnect [of sid s] heap_disconnect [of sid s] assms(2)
  show ?thesis unfolding s' by (auto simp: refs_valid_def list_all_iff)
qed

lemma reachable_refs_valid: "reachable s \<Longrightarrow> refs_valid s"
proof (induction rule: reachable.induct)
  case init
  show ?case by (simp add: refs_valid_def init_state_def)
next
  case (step s sid ev s' out)
  then show ?case by (auto intro: refs_valid_handle)
qed

text \<open>So in a reachable state \<open>activeGames_get\<close> finds a game exactly when the map has
  the id.\<close>

lemma reachable_get_iff:
  assumes "reachable s"
  shows "activeGames_get s gameId = None \<longleftrightarrow> map_of (activeGames s) gameId = None"
proof -
  have "r < length (heap s)" if "map_of (activeGames s) gameId = Some r" for r
    using reachable_refs_valid [OF assms] map_of_SomeD [OF that]
    by (auto simp: refs_valid_def list_all_iff)
  then show ?thesis
    by (auto simp: activeGames_get_def deref_def split: option.splits)
qed

subsection \<open>The example states are reachable\<close>

lemma final_state_reachable: "final_state evs = Some s \<Longrightarrow> reachable s"
  by (auto simp: final_state_def split: sum.splits intro: run_reachable [OF reachable.init])

lemma scenario_state_reachable: "reachable scenario_state"
proof -
  have "final_state scenario_setup = Some scenario_state" by code_simp
  then show ?thesis by (rule final_state_reachable)
qed

lemma nine_state_reachable: "reachable nine_state"
proof -
  have "final_state (scenario_setup @ replicate 9 (''A'', On_submit_guess ''A_B_42'' [1, 1, 1, 1]))
      = Some nine_state"
    by code_simp
  then show ?thesis by (rule final_state_reachable)
qed

lemma exhausted_state_reachable: "reachable exhausted_state"
proof -
  have "final_state (scenario_setup @ replicate 10 (''A'', On_submit_guess ''A_B_42'' [1, 1, 1, 1]))
      = Some exhausted_state"
    by code_simp
  then show ?thesis by (rule final_state_reachable)
qed


subsection \<open>The attempt budget\<close>

text \<open>
  Claim C3: in a state the handlers can reach, for a session whose secrets are both
  committed and for either participant, \<open>submit_guess\<close> is rejected with the
  attempts-exhausted error, the state left as it was, exactly when that player's row
  already has ten entries. With fewer than ten entries the guess is accepted and
  appended to the row. So the tenth guess is accepted, an eleventh attempt is rejected,
  and no row is ever longer than ten.
\<close>

theorem attempts_exhausted_iff:
  assumes "reachable s"
    and "activeGames_get s gameId = Some (r, g)"
    and "secret1 g \<noteq> None" and "secret2 g \<noteq> None"
    and "player1 g = sid \<or> player2 g = sid"
  shows "(submit_guess sid gameId gs s
            = Inr (s, [(ToSocket sid, guess_error gameId err_attempts_exhausted)])
          \<longleftrightarrow> length (guessesArray_of sid g) = 10)
    \<and> (length (guessesArray_of sid g) < 10 \<longrightarrow>
         (\<exists>ts out. targetSecret_of sid g = Some ts
            \<and> submit_guess sid gameId gs s
                = Inr (store s r (append_guess sid \<lparr>guess = gs, feedback = calculateFeedback ts gs\<rparr> g), out)
            \<and> guessesArray_of sid (append_guess sid \<lparr>guess = gs, feedback = calculateFeedback ts gs\<rparr> g)
                = guessesArray_of sid g @ [\<lparr>guess = gs, feedback = calculateFeedback ts gs\<rparr>]))
    \<and> length (guesses1 g) \<le> 10 \<and> length (guesses2 g) \<le> 10"
proof -
  from assms(1,2) have ok: "game_ok g" by (rule reachable_get_ok)
  with assms(3,4) have flag: "bothCodesSet g" and le1: "length (guesses1 g) \<le> 10"
    and le2: "length (guesses2 g) \<le> 10"
    by (auto simp: game_ok_def)
  from le1 le2 have le: "length (guessesArray_of sid g) \<le> 10"
    by (simp add: guessesArray_of_def)
  from assms(3,4) obtain ts where ts: "targetSecret_of sid g = Some ts"
    by (cases "player1 g = sid") (auto simp: targetSecret_of_def)
  have acc: "\<exists>out. submit_guess sid gameId gs s
      = Inr (store s r (append_guess sid \<lparr>guess = gs, feedback = calculateFeedback ts gs\<rparr> g),
             (ToSocket sid, guess_feedback gameId \<lparr>guess = gs, feedback = calculateFeedback ts gs\<rparr>
                (every_matches gs ts) (length (guessesArray_of sid g) = 9 \<or> every_matches gs ts)) # out)"
    if "length (guessesArray_of sid g) < 10"
    using submit_guess_accepted [OF assms(2) flag assms(5) that ts, of gs] by simp
  have full: "submit_guess sid gameId gs s
      = Inr (s, [(ToSocket sid, guess_error gameId err_attempts_exhausted)])"
    if "length (guessesArray_of sid g) = 10"
    using submit_guess_exhausted [OF assms(2) flag assms(5), of gs] that by simp
  have "length (guessesArray_of sid g) = 10"
    if rej: "submit_guess sid gameId gs s
      = Inr (s, [(ToSocket sid, guess_error gameId err_attempts_exhausted)])"
  proof (rule ccontr)
    assume "length (guessesArray_of sid g) \<noteq> 10"
    with le have "length (guessesArray_of sid g) < 10" by simp
    from acc [OF this] rej show False by auto
  qed
  with full have iff: "submit_guess sid gameId gs s
      = Inr (s, [(ToSocket sid, guess_error gameId err_attempts_exhausted)])
    \<longleftrightarrow> length (guessesArray_of sid g) = 10"
    by blast
  have app: "guessesArray_of sid (append_guess sid gd g) = guessesArray_of sid g @ [gd]" for gd
    by (simp add: guessesArray_of_def append_guess_def)
  from acc ts app have "length (guessesArray_of sid g) < 10 \<longrightarrow>
         (\<exists>ts out. targetSecret_of sid g = Some ts
            \<and> submit_guess sid gameId gs s
                = Inr (store s r (append_guess sid \<lparr>guess = gs, feedback = calculateFeedback ts gs\<rparr> g), out)
            \<and> guessesArray_of sid (append_guess sid \<lparr>guess = gs, feedback = calculateFeedback ts gs\<rparr> g)
                = guessesArray_of sid g @ [\<lparr>guess = gs, feedback = calculateFeedback ts gs\<rparr>])"
    by blast
  with iff le1 le2 show ?thesis by blast
qed

theorem attempts_exhausted_iff_witness:
  "reachable nine_state \<and> reachable exhausted_state
   \<and> activeGames_get nine_state ''A_B_42'' = Some (0, nine_game)
   \<and> activeGames_get exhausted_state ''A_B_42'' = Some (0, exhausted_game)
   \<and> secret1 nine_game \<noteq> None \<and> secret2 nine_game \<noteq> None \<and> player1 nine_game = ''A''
   \<and> secret1 exhausted_game \<noteq> None \<and> secret2 exhausted_game \<noteq> None \<and> player1 exhausted_game = ''A''
   \<and> length (guessesArray_of ''A'' nine_game) = 9
   \<and> length (guessesArray_of ''A'' exhausted_game) = 10
   \<and> submit_guess ''A'' ''A_B_42'' [1, 1, 1, 1] nine_state
       \<noteq> Inr (nine_state, [(ToSocket ''A'', guess_error ''A_B_42'' err_attempts_exhausted)])
   \<and> (\<exists>out. submit_guess ''A'' ''A_B_42'' [1, 1, 1, 1] nine_state = Inr (exhausted_state, out))
   \<and> submit_guess ''A'' ''A_B_42'' [1, 1, 1, 1] exhausted_state
       = Inr (exhausted_state, [(ToSocket ''A'', guess_error ''A_B_42'' err_attempts_exhausted)])"
proof -
  have g9: "activeGames_get nine_state ''A_B_42'' = Some (0, nine_game)" by code_simp
  have g10: "activeGames_get exhausted_state ''A_B_42'' = Some (0, exhausted_game)" by code_simp
  have s9: "secret1 nine_game \<noteq> None" "secret2 nine_game \<noteq> None" by code_simp+
  have s10: "secret1 exhausted_game \<noteq> None" "secret2 exhausted_game \<noteq> None" by code_simp+
  have p9: "player1 nine_game = ''A''" by code_simp
  have p10: "player1 exhausted_game = ''A''" by code_simp
  have l9: "length (guessesArray_of ''A'' nine_game) = 9" by code_simp
  have l10: "length (guessesArray_of ''A'' exhausted_game) = 10" by code_simp
  have t9: "targetSecret_of ''A'' nine_game = Some [4, 3, 2, 1]" by code_simp
  have st: "store nine_state 0 (append_guess ''A''
      \<lparr>guess = [1, 1, 1, 1], feedback = calculateFeedback [4, 3, 2, 1] [1, 1, 1, 1]\<rparr> nine_game)
      = exhausted_state"
    by code_simp
  note nine = attempts_exhausted_iff [OF nine_state_reachable g9 s9 disjI1 [OF p9], of "[1, 1, 1, 1]"]
  note ten = attempts_exhausted_iff [OF exhausted_state_reachable g10 s10 disjI1 [OF p10],
      of "[1, 1, 1, 1]"]
  from nine l9 have a: "submit_guess ''A'' ''A_B_42'' [1, 1, 1, 1] nine_state
       \<noteq> Inr (nine_state, [(ToSocket ''A'', guess_error ''A_B_42'' err_attempts_exhausted)])"
    by simp
  from nine l9 t9 st have b: "\<exists>out. submit_guess ''A'' ''A_B_42'' [1, 1, 1, 1] nine_state
      = Inr (exhausted_state, out)"
    by auto
  from ten l10 have c: "submit_guess ''A'' ''A_B_42'' [1, 1, 1, 1] exhausted_state
       = Inr (exhausted_state, [(ToSocket ''A'', guess_error ''A_B_42'' err_attempts_exhausted)])"
    by simp
  from nine_state_reachable exhausted_state_reachable g9 g10 s9 s10 p9 p10 l9 l10 a b c
  show ?thesis by blast
qed

subsection \<open>Which failures are reported\<close>

lemma guess_error_sent_to_simps [simp]:
  "guess_error_sent_to sid (Inl e) = False"
  "guess_error_sent_to sid (Inr (s, [])) = False"
  "guess_error_sent_to sid (Inr (s, (d, m) # out))
     = (d = ToSocket sid \<and> is_guess_error m \<or> guess_error_sent_to sid (Inr (s, out)))"
  by (simp_all add: guess_error_sent_to_def)

lemma is_guess_error_simps [simp]:
  "is_guess_error (guess_error gameId e)"
  "\<not> is_guess_error (guess_feedback gameId gd w over)"
  "\<not> is_guess_error (opponent_guess gameId gd)"
  "\<not> is_guess_error (opponent_game_status gameId w l)"
  by (simp_all add: is_guess_error_def)

text \<open>
  Claim C4: \<open>submit_guess\<close> sends a \<open>guess_error\<close> to the submitter exactly when the
  failure is \<open>SecretsNotReady\<close> or \<open>AttemptsExhausted\<close>; for an unknown session or a
  caller who is not a participant, \<open>submit_guess\<close> and \<open>set_secret_code\<close> emit nothing;
  and in every failure case the state, with all its rows, is returned unchanged. The
  failure kinds are tested in the order of the specification, so a caller who is not a
  participant of a session still awaiting a secret fails with \<open>SecretsNotReady\<close>.
\<close>

theorem guess_error_iff_not_ready_or_exhausted:
  "(guess_error_sent_to sid (submit_guess sid gameId gs s)
      \<longleftrightarrow> spec_guess_failure sid gameId s = Some SecretsNotReady
          \<or> spec_guess_failure sid gameId s = Some AttemptsExhausted)
   \<and> (spec_guess_failure sid gameId s = Some SecretsNotReady \<longrightarrow>
        submit_guess sid gameId gs s
          = Inr (s, [(ToSocket sid, guess_error gameId err_secrets_not_ready)]))
   \<and> (spec_guess_failure sid gameId s = Some AttemptsExhausted \<longrightarrow>
        submit_guess sid gameId gs s
          = Inr (s, [(ToSocket sid, guess_error gameId err_attempts_exhausted)]))
   \<and> (spec_guess_failure sid gameId s = Some SessionNotFound
        \<or> spec_guess_failure sid gameId s = Some NotAParticipant \<longrightarrow>
        submit_guess sid gameId gs s = Inr (s, []))
   \<and> (spec_commit_failure sid gameId s = Some SessionNotFound
        \<or> spec_commit_failure sid gameId s = Some NotAParticipant \<longrightarrow>
        set_secret_code sid gameId code s = (s, []))"
proof (cases "activeGames_get s gameId")
  case None
  then show ?thesis
    by (simp add: spec_guess_failure_def spec_commit_failure_def submit_guess_not_found
        set_secret_code_not_found)
next
  case (Some p)
  obtain r g where p: "p = (r, g)" by (cases p)
  note get = Some [unfolded p]
  have commit: "spec_commit_failure sid gameId s = Some SessionNotFound
        \<or> spec_commit_failure sid gameId s = Some NotAParticipant \<longrightarrow>
        set_secret_code sid gameId code s = (s, [])"
    using get by (auto simp: spec_commit_failure_def set_secret_code_foreign split: if_splits)
  consider (unready) "\<not> bothCodesSet g"
    | (foreign) "bothCodesSet g" "player1 g \<noteq> sid" "player2 g \<noteq> sid"
    | (full) "bothCodesSet g" "player1 g = sid \<or> player2 g = sid" "10 \<le> length (guessesArray_of sid g)"
    | (null) "bothCodesSet g" "player1 g = sid \<or> player2 g = sid" "length (guessesArray_of sid g) < 10"
        "targetSecret_of sid g = None"
    | (ok) ts where "bothCodesSet g" "player1 g = sid \<or> player2 g = sid"
        "length (guessesArray_of sid g) < 10" "targetSecret_of sid g = Some ts"
    by (metis not_le option.exhaust)
  then have "(guess_error_sent_to sid (submit_guess sid gameId gs s)
      \<longleftrightarrow> spec_guess_failure sid gameId s = Some SecretsNotReady
          \<or> spec_guess_failure sid gameId s = Some AttemptsExhausted)
   \<and> (spec_guess_failure sid gameId s = Some SecretsNotReady \<longrightarrow>
        submit_guess sid gameId gs s
          = Inr (s, [(ToSocket sid, guess_error gameId err_secrets_not_ready)]))
   \<and> (spec_guess_failure sid gameId s = Some AttemptsExhausted \<longrightarrow>
        submit_guess sid gameId gs s
          = Inr (s, [(ToSocket sid, guess_error gameId err_attempts_exhausted)]))
   \<and> (spec_guess_failure sid gameId s = Some SessionNotFound
        \<or> spec_guess_failure sid gameId s = Some NotAParticipant \<longrightarrow>
        submit_guess sid gameId gs s = Inr (s, []))"
  proof cases
    case unready
    with get show ?thesis
      by (simp add: spec_guess_failure_def submit_guess_not_ready)
  next
    case foreign
    with get show ?thesis
      by (simp add: spec_guess_failure_def submit_guess_foreign)
  next
    case full
    with get submit_guess_exhausted [OF get full, of gs] show ?thesis
      by (auto simp: spec_guess_failure_def)
  next
    case null
    with get submit_guess_null_secret [OF get null, of gs] show ?thesis
      by (auto simp: spec_guess_failure_def)
  next
    case ok
    with get submit_guess_accepted [OF get ok, of gs] show ?thesis
      by (auto simp: spec_guess_failure_def)
  qed
  with commit show ?thesis by blast
qed

theorem guess_error_iff_not_ready_or_exhausted_witness:
  "spec_guess_failure ''C'' ''A_B_42'' awaiting_state = Some SecretsNotReady
   \<and> submit_guess ''C'' ''A_B_42'' [1, 1, 1, 1] awaiting_state
       = Inr (awaiting_state, [(ToSocket ''C'', guess_error ''A_B_42'' err_secrets_not_ready)])
   \<and> guess_error_sent_to ''C'' (submit_guess ''C'' ''A_B_42'' [1, 1, 1, 1] awaiting_state)
   \<and> spec_guess_failure ''A'' ''A_B_42'' exhausted_state = Some AttemptsExhausted
   \<and> submit_guess ''A'' ''A_B_42'' [1, 1, 1, 1] exhausted_state
       = Inr (exhausted_state, [(ToSocket ''A'', guess_error ''A_B_42'' err_attempts_exhausted)])
   \<and> spec_guess_failure ''A'' ''A_B_7'' scenario_state = Some SessionNotFound
   \<and> submit_guess ''A'' ''A_B_7'' [1, 1, 1, 1] scenario_state = Inr (scenario_state, [])
   \<and> spec_guess_failure ''C'' ''A_B_42'' scenario_state = Some NotAParticipant
   \<and> submit_guess ''C'' ''A_B_42'' [1, 1, 1, 1] scenario_state = Inr (scenario_state, [])
   \<and> \<not> guess_error_sent_to ''C'' (submit_guess ''C'' ''A_B_42'' [1, 1, 1, 1] scenario_state)
   \<and> spec_commit_failure ''C'' ''A_B_42'' scenario_state = Some NotAParticipant
   \<and> set_secret_code ''C'' ''A_B_42'' (Some [5, 5, 5, 5]) scenario_state = (scenario_state, [])
   \<and> spec_commit_failure ''A'' ''A_B_7'' scenario_state = Some SessionNotFound
   \<and> set_secret_code ''A'' ''A_B_7'' (Some [5, 5, 5, 5]) scenario_state = (scenario_state, [])"
proof -
  have f1: "spec_guess_failure ''C'' ''A_B_42'' awaiting_state = Some SecretsNotReady" by code_simp
  have f2: "spec_guess_failure ''A'' ''A_B_42'' exhausted_state = Some AttemptsExhausted" by code_simp
  have f3: "spec_guess_failure ''A'' ''A_B_7'' scenario_state = Some SessionNotFound" by code_simp
  have f4: "spec_guess_failure ''C'' ''A_B_42'' scenario_state = Some NotAParticipant" by code_simp
  have f5: "spec_commit_failure ''C'' ''A_B_42'' scenario_state = Some NotAParticipant" by code_simp
  have f6: "spec_commit_failure ''A'' ''A_B_7'' scenario_state = Some SessionNotFound" by code_simp
  note t1 = guess_error_iff_not_ready_or_exhausted
    [of "''C''" "''A_B_42''" "[1, 1, 1, 1]" awaiting_state "Some [5, 5, 5, 5]"]
  note t2 = guess_error_iff_not_ready_or_exhausted
    [of "''A''" "''A_B_42''" "[1, 1, 1, 1]" exhausted_state "Some [5, 5, 5, 5]"]
  note t3 = guess_error_iff_not_ready_or_exhausted
    [of "''A''" "''A_B_7''" "[1, 1, 1, 1]" scenario_state "Some [5, 5, 5, 5]"]
  note t4 = guess_error_iff_not_ready_or_exhausted
    [of "''C''" "''A_B_42''" "[1, 1, 1, 1]" scenario_state "Some [5, 5, 5, 5]"]
  from t1 f1 have a: "submit_guess ''C'' ''A_B_42'' [1, 1, 1, 1] awaiting_state
       = Inr (awaiting_state, [(ToSocket ''C'', guess_error ''A_B_42'' err_secrets_not_ready)])"
    "guess_error_sent_to ''C'' (submit_guess ''C'' ''A_B_42'' [1, 1, 1, 1] awaiting_state)"
    by blast+
  from t2 f2 have b: "submit_guess ''A'' ''A_B_42'' [1, 1, 1, 1] exhausted_state
       = Inr (exhausted_state, [(ToSocket ''A'', guess_error ''A_B_42'' err_attempts_exhausted)])"
    by blast
  from t3 f3 f6 have c: "submit_guess ''A'' ''A_B_7'' [1, 1, 1, 1] scenario_state = Inr (scenario_state, [])"
    "set_secret_code ''A'' ''A_B_7'' (Some [5, 5, 5, 5]) scenario_state = (scenario_state, [])"
    by blast+
  from t4 f4 f5 have d: "submit_guess ''C'' ''A_B_42'' [1, 1, 1, 1] scenario_state = Inr (scenario_state, [])"
    "\<not> guess_error_sent_to ''C'' (submit_guess ''C'' ''A_B_42'' [1, 1, 1, 1] scenario_state)"
    "set_secret_code ''C'' ''A_B_42'' (Some [5, 5, 5, 5]) scenario_state = (scenario_state, [])"
    by auto
  from f1 f2 f3 f4 f5 f6 a b c d show ?thesis by blast
qed

subsection \<open>Guessing the opponent's secret\<close>

text \<open>
  Claim C5: in a session with both secrets committed, a participant with attempts left
  who submits the opponent's secret itself receives feedback made of exact pegs only
  (as many as the code is long, four for a code of length four) with \<open>isWin\<close> and
  \<open>gameOver\<close> true, and the opponent receives the guess and an
  \<open>opponent_game_status\<close> notice with \<open>opponentWon\<close> true.
\<close>

theorem exact_guess_wins:
  assumes "activeGames_get s gameId = Some (r, g)" and "bothCodesSet g"
    and "player1 g = sid \<or> player2 g = sid"
    and "length (guessesArray_of sid g) < 10"
    and "targetSecret_of sid g = Some c"
  shows "submit_guess sid gameId c s =
    Inr (store s r (append_guess sid \<lparr>guess = c, feedback = replicate (length c) ''black''\<rparr> g),
         [(ToSocket sid,
             guess_feedback gameId \<lparr>guess = c, feedback = replicate (length c) ''black''\<rparr> True True),
          (ToSocket (opponent_of sid g),
             opponent_guess gameId \<lparr>guess = c, feedback = replicate (length c) ''black''\<rparr>),
          (ToSocket (opponent_of sid g), opponent_game_status gameId True False)])
    \<and> exactCount (replicate (length c) ''black'') = length c
    \<and> colorCount (replicate (length c) ''black'') = 0"
  using submit_guess_accepted [OF assms, of c]
  by (simp add: calculateFeedback_self every_matches_self exactCount_def colorCount_def)

theorem exact_guess_wins_witness:
  "activeGames_get scenario_state ''A_B_42'' = Some (0, scenario_game)
   \<and> bothCodesSet scenario_game \<and> player1 scenario_game = ''A''
   \<and> length (guessesArray_of ''A'' scenario_game) < 10
   \<and> targetSecret_of ''A'' scenario_game = Some [4, 3, 2, 1]
   \<and> secret1 scenario_game = Some [1, 2, 3, 4]
   \<and> opponent_of ''A'' scenario_game = ''B''
   \<and> submit_guess ''A'' ''A_B_42'' [4, 3, 2, 1] scenario_state =
       Inr (store scenario_state 0 (append_guess ''A''
              \<lparr>guess = [4, 3, 2, 1], feedback = [''black'', ''black'', ''black'', ''black'']\<rparr>
              scenario_game),
            [(ToSocket ''A'', guess_feedback ''A_B_42''
                \<lparr>guess = [4, 3, 2, 1], feedback = [''black'', ''black'', ''black'', ''black'']\<rparr>
                True True),
             (ToSocket ''B'', opponent_guess ''A_B_42''
                \<lparr>guess = [4, 3, 2, 1], feedback = [''black'', ''black'', ''black'', ''black'']\<rparr>),
             (ToSocket ''B'', opponent_game_status ''A_B_42'' True False)])"
proof -
  have g: "activeGames_get scenario_state ''A_B_42'' = Some (0, scenario_game)" by code_simp
  have f: "bothCodesSet scenario_game" by code_simp
  have p: "player1 scenario_game = ''A''" by code_simp
  have l: "length (guessesArray_of ''A'' scenario_game) < 10" by code_simp
  have t: "targetSecret_of ''A'' scenario_game = Some [4, 3, 2, 1]" by code_simp
  have s1: "secret1 scenario_game = Some [1, 2, 3, 4]" by code_simp
  have o: "opponent_of ''A'' scenario_game = ''B''" by code_simp
  have rep: "replicate (length [4, 3, 2, 1 :: int]) ''black'' = [''black'', ''black'', ''black'', ''black'']"
    by code_simp
  from exact_guess_wins [OF g f disjI1 [OF p] l t] g f p l t s1 o show ?thesis
    unfolding rep o by blast
qed

subsection \<open>Guessing a prefix of the opponent's secret\<close>

text \<open>
  Claim C9: the win test runs over the indices of the guess only. In a session in
  progress, a participant with attempts left who submits a strict prefix of the
  opponent's secret, the empty guess included, has the guess accepted and appended, and
  is told \<open>isWin\<close> and \<open>gameOver\<close> are true; the opponent is told \<open>opponentWon\<close>.
\<close>

theorem prefix_guess_wins:
  assumes "activeGames_get s gameId = Some (r, g)" and "bothCodesSet g"
    and "player1 g = sid \<or> player2 g = sid"
    and "length (guessesArray_of sid g) < 10"
    and "targetSecret_of sid g = Some ts"
    and "strict_prefix gs ts"
  shows "submit_guess sid gameId gs s =
    Inr (store s r (append_guess sid \<lparr>guess = gs, feedback = calculateFeedback ts gs\<rparr> g),
         [(ToSocket sid,
             guess_feedback gameId \<lparr>guess = gs, feedback = calculateFeedback ts gs\<rparr> True True),
          (ToSocket (opponent_of sid g),
             opponent_guess gameId \<lparr>guess = gs, feedback = calculateFeedback ts gs\<rparr>),
          (ToSocket (opponent_of sid g), opponent_game_status gameId True False)])"
proof -
  from assms(6) have "every_matches gs ts"
    by (simp add: every_matches_prefix strict_prefix_def)
  with submit_guess_accepted [OF assms(1-5), of gs] show ?thesis by simp
qed

theorem prefix_guess_wins_witness:
  "activeGames_get scenario_state ''A_B_42'' = Some (0, scenario_game)
   \<and> bothCodesSet scenario_game \<and> player2 scenario_game = ''B''
   \<and> length (guessesArray_of ''B'' scenario_game) < 10
   \<and> targetSecret_of ''B'' scenario_game = Some [1, 2, 3, 4]
   \<and> strict_prefix [] [1, 2, 3, 4 :: int]
   \<and> opponent_of ''B'' scenario_game = ''A''
   \<and> submit_guess ''B'' ''A_B_42'' [] scenario_state =
       Inr (store scenario_state 0 (append_guess ''B'' \<lparr>guess = [], feedback = []\<rparr> scenario_game),
            [(ToSocket ''B'', guess_feedback ''A_B_42'' \<lparr>guess = [], feedback = []\<rparr> True True),
             (ToSocket ''A'', opponent_guess ''A_B_42'' \<lparr>guess = [], feedback = []\<rparr>),
             (ToSocket ''A'', opponent_game_status ''A_B_42'' True False)])"
proof -
  have g: "activeGames_get scenario_state ''A_B_42'' = Some (0, scenario_game)" by code_simp
  have f: "bothCodesSet scenario_game" by code_simp
  have p: "player2 scenario_game = ''B''" by code_simp
  have l: "length (guessesArray_of ''B'' scenario_game) < 10" by code_simp
  have t: "targetSecret_of ''B'' scenario_game = Some [1, 2, 3, 4]" by code_simp
  have o: "opponent_of ''B'' scenario_game = ''A''" by code_simp
  have pre: "strict_prefix [] [1, 2, 3, 4 :: int]" by simp
  have fb: "calculateFeedback [1, 2, 3, 4] [] = []" by code_simp
  from prefix_guess_wins [OF g f disjI2 [OF p] l t pre] g f p l t pre o show ?thesis
    unfolding fb o by blast
qed

subsection \<open>Committing a secret again\<close>

lemma write_secret_fields:
  "player1 (write_secret sid code g) = player1 g"
  "player2 (write_secret sid code g) = player2 g"
  "guesses1 (write_secret sid code g) = guesses1 g"
  "guesses2 (write_secret sid code g) = guesses2 g"
  "player1 g = sid \<Longrightarrow> secret1 (write_secret sid code g) = code"
  "player1 g = sid \<Longrightarrow> secret2 (write_secret sid code g) = secret2 g"
  "player1 g \<noteq> sid \<Longrightarrow> secret2 (write_secret sid code g) = code"
  "player1 g \<noteq> sid \<Longrightarrow> secret1 (write_secret sid code g) = secret1 g"
  by (simp_all add: write_secret_def)

text \<open>
  Claim C10: \<open>set_secret_code\<close> by a participant overwrites that player's secret slot
  whatever the phase of the game, leaving players, rows and the other slot as they were;
  when both slots are non-null after the write the flag \<open>bothCodesSet\<close> is true and
  \<open>both_codes_set\<close> goes to both players, otherwise the flag is unchanged and the
  opponent gets \<open>opponent_code_set\<close>. No handler ever lowers the flag of a game object
  that has it raised.
\<close>

theorem set_secret_code_overwrites:
  "(activeGames_get s gameId = Some (r, g) \<and> (player1 g = sid \<or> player2 g = sid) \<longrightarrow>
      (\<exists>g' out. set_secret_code sid gameId code s = (store s r g', out)
         \<and> activeGames_get (store s r g') gameId = Some (r, g')
         \<and> player1 g' = player1 g \<and> player2 g' = player2 g
         \<and> guesses1 g' = guesses1 g \<and> guesses2 g' = guesses2 g
         \<and> (if player1 g = sid then secret1 g' = code \<and> secret2 g' = secret2 g
             else secret2 g' = code \<and> secret1 g' = secret1 g)
         \<and> (if secret1 g' \<noteq> None \<and> secret2 g' \<noteq> None
             then bothCodesSet g'
                  \<and> out = [(ToSocket (player1 g), both_codes_set gameId),
                            (ToSocket (player2 g), both_codes_set gameId)]
             else bothCodesSet g' = bothCodesSet g
                  \<and> out = [(ToSocket (opponent_of sid g), opponent_code_set gameId)])))
   \<and> (handle sid' ev s0 = Inr (s1, out1) \<and> r0 < length (heap s0) \<and> bothCodesSet (heap s0 ! r0) \<longrightarrow>
        r0 < length (heap s1) \<and> bothCodesSet (heap s1 ! r0))"
proof -
  have A: "\<exists>g' out. set_secret_code sid gameId code s = (store s r g', out)
         \<and> activeGames_get (store s r g') gameId = Some (r, g')
         \<and> player1 g' = player1 g \<and> player2 g' = player2 g
         \<and> guesses1 g' = guesses1 g \<and> guesses2 g' = guesses2 g
         \<and> (if player1 g = sid then secret1 g' = code \<and> secret2 g' = secret2 g
             else secret2 g' = code \<and> secret1 g' = secret1 g)
         \<and> (if secret1 g' \<noteq> None \<and> secret2 g' \<noteq> None
             then bothCodesSet g'
                  \<and> out = [(ToSocket (player1 g), both_codes_set gameId),
                            (ToSocket (player2 g), both_codes_set gameId)]
             else bothCodesSet g' = bothCodesSet g
                  \<and> out = [(ToSocket (opponent_of sid g), opponent_code_set gameId)])"
    if get: "activeGames_get s gameId = Some (r, g)" and part: "player1 g = sid \<or> player2 g = sid"
  proof -
    note D = activeGames_get_SomeD [OF get]
    have again: "activeGames_get (store s r g') gameId = Some (r, g')" for g'
      using D by (simp add: activeGames_get_def deref_def)
    let ?w = "write_secret sid code g"
    show ?thesis
    proof (cases "secret1 ?w \<noteq> None \<and> secret2 ?w \<noteq> None")
      case True
      with set_secret_code_participant [OF get part, of code]
      have "set_secret_code sid gameId code s
          = (store s r (?w\<lparr>bothCodesSet := True\<rparr>),
             [(ToSocket (player1 g), both_codes_set gameId),
              (ToSocket (player2 g), both_codes_set gameId)])"
        by simp
      moreover have "secret1 (?w\<lparr>bothCodesSet := True\<rparr>) \<noteq> None \<and> secret2 (?w\<lparr>bothCodesSet := True\<rparr>) \<noteq> None"
        using True by simp
      ultimately show ?thesis
        using again [of "?w\<lparr>bothCodesSet := True\<rparr>"]
        by (intro exI [of _ "?w\<lparr>bothCodesSet := True\<rparr>"]
            exI [of _ "[(ToSocket (player1 g), both_codes_set gameId),
                        (ToSocket (player2 g), both_codes_set gameId)]"])
          (simp add: write_secret_fields)
    next
      case False
      with set_secret_code_participant [OF get part, of code]
      have "set_secret_code sid gameId code s
          = (store s r ?w, [(ToSocket (opponent_of sid g), opponent_code_set gameId)])"
        by auto
      then show ?thesis
        using again [of ?w] False
        by (intro exI [of _ ?w]
            exI [of _ "[(ToSocket (opponent_of sid g), opponent_code_set gameId)]"])
          (simp add: write_secret_fields)
    qed
  qed
  have B: "r0 < length (heap s1) \<and> bothCodesSet (heap s1 ! r0)"
    if "handle sid' ev s0 = Inr (s1, out1)" "r0 < length (heap s0)" "bothCodesSet (heap s0 ! r0)"
    using that by (rule flag_kept)
  from A B show ?thesis by blast
qed

theorem set_secret_code_overwrites_witness:
  "activeGames_get nine_state ''A_B_42'' = Some (0, nine_game)
   \<and> player2 nine_game = ''B'' \<and> player1 nine_game = ''A''
   \<and> length (guesses1 nine_game) = 9 \<and> secret2 nine_game = Some [4, 3, 2, 1]
   \<and> set_secret_code ''B'' ''A_B_42'' (Some [6, 6, 6, 6]) nine_state
       = (store nine_state 0 (nine_game\<lparr>secret2 := Some [6, 6, 6, 6]\<rparr>),
          [(ToSocket ''A'', both_codes_set ''A_B_42''), (ToSocket ''B'', both_codes_set ''A_B_42'')])
   \<and> handle ''B'' (On_set_secret_code ''A_B_42'' None) nine_state
       = Inr (store nine_state 0 (nine_game\<lparr>secret2 := None\<rparr>),
              [(ToSocket ''A'', opponent_code_set ''A_B_42'')])
   \<and> 0 < length (heap nine_state) \<and> bothCodesSet (heap nine_state ! 0)
   \<and> bothCodesSet (heap (store nine_state 0 (nine_game\<lparr>secret2 := None\<rparr>)) ! 0)"
proof -
  have g: "activeGames_get nine_state ''A_B_42'' = Some (0, nine_game)" by code_simp
  have p: "player2 nine_game = ''B''" "player1 nine_game = ''A''" by code_simp+
  have l: "length (guesses1 nine_game) = 9" by code_simp
  have s2: "secret2 nine_game = Some [4, 3, 2, 1]" by code_simp
  have s1: "secret1 nine_game = Some [1, 2, 3, 4]" by code_simp
  have h: "handle ''B'' (On_set_secret_code ''A_B_42'' None) nine_state
       = Inr (store nine_state 0 (nine_game\<lparr>secret2 := None\<rparr>),
              [(ToSocket ''A'', opponent_code_set ''A_B_42'')])"
    by code_simp
  have a: "0 < length (heap nine_state)" "bothCodesSet (heap nine_state ! 0)" by code_simp+
  have ne: "player1 nine_game \<noteq> ''B''" by code_simp
  note t = set_secret_code_overwrites [of nine_state "''A_B_42''" 0 nine_game "''B''"
      "Some [6, 6, 6, 6]" "''B''" "On_set_secret_code ''A_B_42'' None" nine_state
      "store nine_state 0 (nine_game\<lparr>secret2 := None\<rparr>)"
      "[(ToSocket ''A'', opponent_code_set ''A_B_42'')]" 0]
  from t h a have k: "bothCodesSet (heap (store nine_state 0 (nine_game\<lparr>secret2 := None\<rparr>)) ! 0)"
    by blast
  from t g p(1) obtain g' out where
    r: "set_secret_code ''B'' ''A_B_42'' (Some [6, 6, 6, 6]) nine_state = (store nine_state 0 g', out)"
    and f: "player1 g' = player1 nine_game" "player2 g' = player2 nine_game"
      "guesses1 g' = guesses1 nine_game" "guesses2 g' = guesses2 nine_game"
    and sec: "if player1 nine_game = ''B'' then secret1 g' = Some [6, 6, 6, 6] \<and> secret2 g' = secret2 nine_game
             else secret2 g' = Some [6, 6, 6, 6] \<and> secret1 g' = secret1 nine_game"
    and fl: "if secret1 g' \<noteq> None \<and> secret2 g' \<noteq> None
             then bothCodesSet g'
                  \<and> out = [(ToSocket (player1 nine_game), both_codes_set ''A_B_42''),
                            (ToSocket (player2 nine_game), both_codes_set ''A_B_42'')]
             else bothCodesSet g' = bothCodesSet nine_game
                  \<and> out = [(ToSocket (opponent_of ''B'' nine_game), opponent_code_set ''A_B_42'')]"
    by blast
  from sec ne s1 have sec': "secret2 g' = Some [6, 6, 6, 6]" "secret1 g' = Some [1, 2, 3, 4]" by simp_all
  with fl p have out: "out = [(ToSocket ''A'', both_codes_set ''A_B_42''), (ToSocket ''B'', both_codes_set ''A_B_42'')]"
    and flag: "bothCodesSet g'"
    by simp_all
  have "bothCodesSet nine_game" by code_simp
  with flag f sec' s1 have "g' = nine_game\<lparr>secret2 := Some [6, 6, 6, 6]\<rparr>"
    by (cases g', cases nine_game) simp
  with r out have "set_secret_code ''B'' ''A_B_42'' (Some [6, 6, 6, 6]) nine_state
       = (store nine_state 0 (nine_game\<lparr>secret2 := Some [6, 6, 6, 6]\<rparr>),
          [(ToSocket ''A'', both_codes_set ''A_B_42''), (ToSocket ''B'', both_codes_set ''A_B_42'')])"
    by simp
  with g p l s2 h a k show ?thesis by blast
qed

subsection \<open>Sending a challenge\<close>

text \<open>
  The claim that \<open>send_challenge\<close> is silent only when the target is absent fails when
  the challenger has not registered: here the target \<open>B\<close> is present and nothing is sent.
\<close>

theorem send_challenge_silent_with_target_present:
  "has (onlineUsers only_bob_online) ''B''
   \<and> send_challenge ''A'' ''B'' only_bob_online = (only_bob_online, [])"
  by code_simp

text \<open>
  Claim C7, as amended: \<open>send_challenge\<close> is silent (nothing sent, state unchanged)
  exactly when the target connection is not present or the challenger itself has not
  registered; otherwise it sends \<open>challenge_received\<close> to the target, carrying the
  challenger's username and connection id. It never changes the state.
\<close>

theorem send_challenge_silent_iff:
  "(send_challenge sid t s = (s, [])
      \<longleftrightarrow> \<not> (has (onlineUsers s) sid \<and> has (onlineUsers s) t))
   \<and> (map_of (onlineUsers s) sid = Some u \<and> has (onlineUsers s) t \<longrightarrow>
        send_challenge sid t s = (s, [(ToSocket t, challenge_received (username u) sid)]))
   \<and> fst (send_challenge sid t s) = s"
  by (auto simp: send_challenge_def has_def split: option.splits)

theorem send_challenge_silent_iff_witness:
  "map_of (onlineUsers both_online) ''A'' = Some alice \<and> has (onlineUsers both_online) ''B''
   \<and> send_challenge ''A'' ''B'' both_online
       = (both_online, [(ToSocket ''B'', challenge_received (Some ''alice'') ''A'')])
   \<and> \<not> has (onlineUsers only_bob_online) ''A''
   \<and> send_challenge ''A'' ''B'' only_bob_online = (only_bob_online, [])
   \<and> \<not> has (onlineUsers both_online) ''C''
   \<and> send_challenge ''A'' ''C'' both_online = (both_online, [])"
proof -
  have a: "map_of (onlineUsers both_online) ''A'' = Some alice" by code_simp
  have b: "has (onlineUsers both_online) ''B''" by code_simp
  have c: "\<not> has (onlineUsers only_bob_online) ''A''" by code_simp
  have d: "\<not> has (onlineUsers both_online) ''C''" by code_simp
  have n: "username alice = Some ''alice''" by code_simp
  from send_challenge_silent_iff [of "''A''" "''B''" both_online alice] a b n
  have e: "send_challenge ''A'' ''B'' both_online
       = (both_online, [(ToSocket ''B'', challenge_received (Some ''alice'') ''A'')])"
    by simp
  from send_challenge_silent_iff [of "''A''" "''B''" only_bob_online alice] c
  have f: "send_challenge ''A'' ''B'' only_bob_online = (only_bob_online, [])"
    by blast
  from send_challenge_silent_iff [of "''A''" "''C''" both_online alice] d
  have g: "send_challenge ''A'' ''C'' both_online = (both_online, [])"
    by blast
  from a b c d e f g show ?thesis by blast
qed

subsection \<open>Game ids\<close>

text \<open>
  Claim C6 says that two acceptances that each create a session get different game ids.
  The id is made of the two connection ids and \<open>Date.now()\<close>, which counts milliseconds:
  when \<open>B\<close> accepts \<open>A\<close>'s challenge twice within the same millisecond, both sessions get
  the id \<open>A_B_1700000000000\<close>, both pairs of notices carry it, and the second session
  replaces the first in \<open>activeGames\<close>.
\<close>

theorem rematch_in_same_millisecond_reuses_id:
  "run [(''B'', On_accept_challenge ''A'' 1700000000000),
        (''B'', On_accept_challenge ''A'' 1700000000000)] both_online
   = Inr (\<lparr>onlineUsers = [(''A'', alice), (''B'', bob)],
           activeGames = [(''A_B_1700000000000'', 1)],
           heap = [new_game ''A'' ''B'', new_game ''A'' ''B'']\<rparr>,
          [(ToSocket ''A'', challenge_accepted (Some ''bob'') ''B'' ''A_B_1700000000000'' ''player1''),
           (ToSocket ''B'', challenge_accepted (Some ''alice'') ''A'' ''A_B_1700000000000'' ''player2''),
           (ToSocket ''A'', challenge_accepted (Some ''bob'') ''B'' ''A_B_1700000000000'' ''player1''),
           (ToSocket ''B'', challenge_accepted (Some ''alice'') ''A'' ''A_B_1700000000000'' ''player2'')])"
  by (simp add: accept_challenge_def both_online_def alice_def bob_def make_gameId_def
      show_nat.simps digit_char_def Let_def)

end
